theory Spec2Isabelle
  imports Main
begin

section \<open>Python strings\<close>

text \<open>
  Python strings are modelled as HOL strings. A character is read as a code point below
  256, and \<open>isspace\<close> is Python's \<^verbatim>\<open>str.isspace\<close> on that range, which is also the
  class \<^verbatim>\<open>\s\<close> of the \<^verbatim>\<open>re\<close> module on \<^verbatim>\<open>str\<close> patterns.
\<close>

definition isspace :: "char \<Rightarrow> bool" where
  "isspace c = (c \<in> set [CHR 0x09, CHR 0x0A, CHR 0x0B, CHR 0x0C, CHR 0x0D,
                           CHR 0x1C, CHR 0x1D, CHR 0x1E, CHR 0x1F, CHR 0x20,
                           CHR 0x85, CHR 0xA0])"

text \<open>\<^verbatim>\<open>re.sub(r'\s+', ' ', text)\<close>: every maximal run of whitespace becomes one space.\<close>

function re_sub_spaces :: "string \<Rightarrow> string" where
  "re_sub_spaces [] = []"
| "re_sub_spaces (c # cs) =
     (if isspace c then CHR '' '' # re_sub_spaces (dropWhile isspace cs)
      else c # re_sub_spaces cs)"
  by pat_completeness auto
termination
  by (relation "measure length") (auto simp: length_dropWhile_le less_Suc_eq_le)

text \<open>\<^verbatim>\<open>text.strip()\<close>: leading and trailing whitespace removed.\<close>

definition strip :: "string \<Rightarrow> string" where
  "strip s = rev (dropWhile isspace (rev (dropWhile isspace s)))"

text \<open>\<^verbatim>\<open>s.split(sep)\<close> for a one-character separator: never the empty list.\<close>

fun split_on :: "char \<Rightarrow> string \<Rightarrow> string list" where
  "split_on sep [] = [[]]"
| "split_on sep (c # cs) =
     (if c = sep then [] # split_on sep cs
      else (case split_on sep cs of
              [] \<Rightarrow> [[c]]
            | w # ws \<Rightarrow> (c # w) # ws))"

text \<open>\<^verbatim>\<open>s.split(sep, 1)\<close> where \<open>sep\<close> occurs in \<open>s\<close>: the parts before and after the
  first occurrence.\<close>

definition split_once :: "char \<Rightarrow> string \<Rightarrow> string \<times> string" where
  "split_once sep s = (takeWhile (\<lambda>c. c \<noteq> sep) s, tl (dropWhile (\<lambda>c. c \<noteq> sep) s))"

text \<open>\<^verbatim>\<open>sep.join(parts)\<close>.\<close>

fun str_join :: "string \<Rightarrow> string list \<Rightarrow> string" where
  "str_join sep [] = []"
| "str_join sep [w] = w"
| "str_join sep (w # ws) = w @ sep @ str_join sep ws"

definition ascii_upper :: string where
  "ascii_upper = ''ABCDEFGHIJKLMNOPQRSTUVWXYZ''"

definition ascii_lower :: string where
  "ascii_lower = ''abcdefghijklmnopqrstuvwxyz''"

text \<open>\<^verbatim>\<open>str.lower\<close>, on the ASCII letters (it is applied to scheme names only).\<close>

definition lower_char :: "char \<Rightarrow> char" where
  "lower_char c = (if c \<in> set ascii_upper then char_of (of_char c + (32::nat)) else c)"

text \<open>\<^verbatim>\<open>str(n)\<close> for a natural number: its decimal digits.\<close>

fun str_nat :: "nat \<Rightarrow> string" where
  "str_nat n =
     (if n < 10 then [char_of (48 + n)]
      else str_nat (n div 10) @ [char_of (48 + n mod 10)])"

declare str_nat.simps [simp del]

section \<open>Exceptions\<close>

text \<open>
  The exceptions that can be raised inside the \<^verbatim>\<open>try\<close> block of \<^verbatim>\<open>scrape_website\<close>, each
  with its message \<^verbatim>\<open>str(e)\<close>. \<open>HTTPError\<close>, \<open>ConnectionError\<close> and \<open>Timeout\<close> are the
  subclasses of \<^verbatim>\<open>requests.exceptions.RequestException\<close>; \<open>ValueError\<close> is what
  \<^verbatim>\<open>urllib.parse\<close> raises, \<open>KeyError\<close> what \<^verbatim>\<open>tag[key]\<close> raises.
\<close>

datatype exn =
    HTTPError string
  | ConnectionError string
  | Timeout string
  | ValueError string
  | KeyError string

fun is_RequestException :: "exn \<Rightarrow> bool" where
  "is_RequestException (HTTPError m) = True"
| "is_RequestException (ConnectionError m) = True"
| "is_RequestException (Timeout m) = True"
| "is_RequestException (ValueError m) = False"
| "is_RequestException (KeyError m) = False"

fun str_exn :: "exn \<Rightarrow> string" where
  "str_exn (HTTPError m) = m"
| "str_exn (ConnectionError m) = m"
| "str_exn (Timeout m) = m"
| "str_exn (ValueError m) = m"
| "str_exn (KeyError k) = [CHR 0x27] @ k @ [CHR 0x27]"

text \<open>What \<^verbatim>\<open>scrape_website\<close> itself raises: a plain \<^verbatim>\<open>Exception\<close> with a message.\<close>

datatype error = Exception string

section \<open>The standard library: urllib.parse\<close>

text \<open>
  \<^verbatim>\<open>urlparse\<close>, \<^verbatim>\<open>urlunparse\<close> and \<^verbatim>\<open>urljoin\<close> follow the text of CPython's
  \<^verbatim>\<open>urllib/parse.py\<close> (3.11) on \<^verbatim>\<open>str\<close> arguments. Two checks of \<^verbatim>\<open>urlsplit\<close> are not
  part of the model. The NFKC check of a non-ASCII netloc never raises for code points
  below 256, the characters of this model. The validation of a host between brackets
  with the \<^verbatim>\<open>ipaddress\<close> module (Python 3.11.4 and later) raises further \<^verbatim>\<open>ValueError\<close>s, only
  for a netloc with both \<^verbatim>\<open>[\<close> and \<^verbatim>\<open>]\<close>; no URL evaluated below has such a netloc.
\<close>

definition uses_relative :: "string list" where
  "uses_relative = ['''', ''ftp'', ''http'', ''gopher'', ''nntp'', ''imap'',
                    ''wais'', ''file'', ''https'', ''shttp'', ''mms'',
                    ''prospero'', ''rtsp'', ''rtsps'', ''rtspu'', ''sftp'',
                    ''svn'', ''svn+ssh'', ''ws'', ''wss'']"

definition uses_netloc :: "string list" where
  "uses_netloc = ['''', ''ftp'', ''http'', ''gopher'', ''nntp'', ''telnet'',
                  ''imap'', ''wais'', ''file'', ''mms'', ''https'', ''shttp'',
                  ''snews'', ''prospero'', ''rtsp'', ''rtsps'', ''rtspu'', ''rsync'',
                  ''svn'', ''svn+ssh'', ''sftp'', ''nfs'', ''git'', ''git+ssh'',
                  ''ws'', ''wss'']"

definition uses_params :: "string list" where
  "uses_params = ['''', ''ftp'', ''hdl'', ''prospero'', ''http'', ''imap'',
                  ''https'', ''shttp'', ''rtsp'', ''rtsps'', ''rtspu'', ''sip'',
                  ''sips'', ''mms'', ''sftp'', ''tel'']"

definition scheme_chars :: string where
  "scheme_chars = ascii_lower @ ascii_upper @ ''0123456789'' @ ''+-.''"

text \<open>The characters \<^verbatim>\<open>_WHATWG_C0_CONTROL_OR_SPACE\<close>: code points 0 to 32.\<close>

definition c0_control_or_space :: "char \<Rightarrow> bool" where
  "c0_control_or_space c = ((of_char c :: nat) \<le> 32)"

text \<open>The characters \<^verbatim>\<open>_UNSAFE_URL_BYTES_TO_REMOVE\<close>: tab, carriage return, newline.\<close>

definition unsafe_url_byte :: "char \<Rightarrow> bool" where
  "unsafe_url_byte c = (c \<in> set [CHR 0x09, CHR 0x0D, CHR 0x0A])"

record parse_result =
  scheme :: string
  netloc :: string
  path :: string
  params :: string
  query :: string
  fragment :: string

text \<open>\<^verbatim>\<open>_splitnetloc(url, 2)\<close>: the netloc runs from index 2 to the first of \<^verbatim>\<open>/?#\<close>.\<close>

definition splitnetloc :: "string \<Rightarrow> string \<times> string" where
  "splitnetloc u =
     (takeWhile (\<lambda>c. c \<notin> set ''/?#'') (drop 2 u),
      dropWhile (\<lambda>c. c \<notin> set ''/?#'') (drop 2 u))"

text \<open>The last steps of \<^verbatim>\<open>urlsplit\<close>: the fragment after the first \<^verbatim>\<open>#\<close>, then the query
  after the first \<^verbatim>\<open>?\<close> of what is left.\<close>

definition split_fragment_query :: "string \<Rightarrow> string \<times> string \<times> string" where
  "split_fragment_query u =
     (let (u1, frag) = (if CHR ''#'' \<in> set u then split_once CHR ''#'' u else (u, []));
          (u2, qry) = (if CHR ''?'' \<in> set u1 then split_once CHR ''?'' u1 else (u1, []))
      in (u2, qry, frag))"

text \<open>\<^verbatim>\<open>urlsplit(url, scheme)\<close>: scheme, netloc, path, query, fragment, or the
  \<^verbatim>\<open>ValueError\<close> of a netloc with an unmatched bracket.\<close>

definition urlsplit ::
  "string \<Rightarrow> string \<Rightarrow> exn + (string \<times> string \<times> string \<times> string \<times> string)" where
  "urlsplit url0 scheme0 =
     (let u = filter (\<lambda>c. \<not> unsafe_url_byte c) (dropWhile c0_control_or_space url0);
          sch0 = filter (\<lambda>c. \<not> unsafe_url_byte c)
                   (rev (dropWhile c0_control_or_space
                      (rev (dropWhile c0_control_or_space scheme0))));
          pre = takeWhile (\<lambda>c. c \<noteq> CHR '':'') u;
          (sch, u1) =
            (if CHR '':'' \<in> set u \<and> pre \<noteq> []
                \<and> hd u \<in> set (ascii_lower @ ascii_upper)
                \<and> list_all (\<lambda>c. c \<in> set scheme_chars) pre
             then (map lower_char pre, tl (dropWhile (\<lambda>c. c \<noteq> CHR '':'') u))
             else (sch0, u))
      in if take 2 u1 = ''//''
         then (let (nl, rest) = splitnetloc u1
               in if (CHR ''['' \<in> set nl \<and> CHR '']'' \<notin> set nl)
                     \<or> (CHR '']'' \<in> set nl \<and> CHR ''['' \<notin> set nl)
                  then Inl (ValueError ''Invalid IPv6 URL'')
                  else (let (p, q, f) = split_fragment_query rest
                        in Inr (sch, nl, p, q, f)))
         else (let (p, q, f) = split_fragment_query u1
               in Inr (sch, [], p, q, f)))"

text \<open>\<^verbatim>\<open>_splitparams(url)\<close>: the parameters follow the first \<^verbatim>\<open>;\<close> of the last path
  segment.\<close>

definition splitparams :: "string \<Rightarrow> string \<times> string" where
  "splitparams u =
     (if CHR ''/'' \<in> set u
      then (let seg = rev (takeWhile (\<lambda>c. c \<noteq> CHR ''/'') (rev u));
                dir = rev (dropWhile (\<lambda>c. c \<noteq> CHR ''/'') (rev u))
            in if CHR '';'' \<notin> set seg then (u, [])
               else (dir @ takeWhile (\<lambda>c. c \<noteq> CHR '';'') seg,
                     tl (dropWhile (\<lambda>c. c \<noteq> CHR '';'') seg)))
      else if CHR '';'' \<in> set u then split_once CHR '';'' u
      else (butlast u, u))"

definition urlparse :: "string \<Rightarrow> string \<Rightarrow> exn + parse_result" where
  "urlparse url0 scheme0 =
     (case urlsplit url0 scheme0 of
        Inl e \<Rightarrow> Inl e
      | Inr (sch, nl, u, q, f) \<Rightarrow>
          (let (p, ps) = (if sch \<in> set uses_params \<and> CHR '';'' \<in> set u
                          then splitparams u else (u, []))
           in Inr \<lparr>scheme = sch, netloc = nl, path = p, params = ps,
                    query = q, fragment = f\<rparr>))"

definition urlunsplit :: "string \<Rightarrow> string \<Rightarrow> string \<Rightarrow> string \<Rightarrow> string \<Rightarrow> string" where
  "urlunsplit sch nl u0 q f =
     (let u1 = (if nl \<noteq> [] \<or> (sch \<noteq> [] \<and> sch \<in> set uses_netloc) \<or> take 2 u0 = ''//''
                then ''//'' @ nl @ (if u0 \<noteq> [] \<and> take 1 u0 \<noteq> ''/'' then ''/'' @ u0 else u0)
                else u0);
          u2 = (if sch \<noteq> [] then sch @ '':'' @ u1 else u1);
          u3 = (if q \<noteq> [] then u2 @ ''?'' @ q else u2)
      in if f \<noteq> [] then u3 @ ''#'' @ f else u3)"

definition urlunparse :: "parse_result \<Rightarrow> string" where
  "urlunparse r =
     urlunsplit (scheme r) (netloc r)
       (if params r \<noteq> [] then path r @ '';'' @ params r else path r)
       (query r) (fragment r)"

text \<open>\<^verbatim>\<open>segments[1:-1] = filter(None, segments[1:-1])\<close>.\<close>

fun drop_empty_middle :: "string list \<Rightarrow> string list" where
  "drop_empty_middle [] = []"
| "drop_empty_middle [s] = [s]"
| "drop_empty_middle (s # ss) = s # filter (\<lambda>x. x \<noteq> []) (butlast ss) @ [last ss]"

text \<open>The loop over the segments: \<^verbatim>\<open>..\<close> pops the resolved path (an empty one stays
  empty), \<^verbatim>\<open>.\<close> is skipped, any other segment is appended.\<close>

fun resolve_segments :: "string list \<Rightarrow> string list \<Rightarrow> string list" where
  "resolve_segments [] resolved_path = resolved_path"
| "resolve_segments (seg # segs) resolved_path =
     (if seg = ''..'' then resolve_segments segs (butlast resolved_path)
      else if seg = ''.'' then resolve_segments segs resolved_path
      else resolve_segments segs (resolved_path @ [seg]))"

definition urljoin :: "string \<Rightarrow> string \<Rightarrow> exn + string" where
  "urljoin base u =
     (if base = [] then Inr u
      else if u = [] then Inr base
      else case urlparse base [] of
        Inl e \<Rightarrow> Inl e
      | Inr b \<Rightarrow>
         (case urlparse u (scheme b) of
            Inl e \<Rightarrow> Inl e
          | Inr r \<Rightarrow>
             if scheme r \<noteq> scheme b \<or> scheme r \<notin> set uses_relative then Inr u
             else if scheme r \<in> set uses_netloc \<and> netloc r \<noteq> [] then Inr (urlunparse r)
             else
              (let nl = (if scheme r \<in> set uses_netloc then netloc b else netloc r)
               in if path r = [] \<and> params r = []
                  then Inr (urlunparse (r\<lparr>netloc := nl, path := path b, params := params b,
                              query := (if query r = [] then query b else query r)\<rparr>))
                  else
                   (let parts = split_on CHR ''/'' (path b);
                        base_parts = (if last parts \<noteq> [] then butlast parts else parts);
                        segments = (if take 1 (path r) = ''/''
                                    then split_on CHR ''/'' (path r)
                                    else drop_empty_middle
                                           (base_parts @ split_on CHR ''/'' (path r)));
                        resolved0 = resolve_segments segments [];
                        resolved_path = (if last segments \<in> set [''.'', ''..'']
                                         then resolved0 @ [[]] else resolved0);
                        joined = str_join ''/'' resolved_path
                    in Inr (urlunparse (r\<lparr>netloc := nl,
                              path := (if joined = [] then ''/'' else joined)\<rparr>))))))"

section \<open>The parsed document: BeautifulSoup\<close>

text \<open>
  The tree \<^verbatim>\<open>BeautifulSoup(response.content, 'html.parser')\<close> builds. A tag has a name,
  its attributes (a dictionary, here an association list read with \<open>map_of\<close>) and its
  children; the \<^verbatim>\<open>BeautifulSoup\<close> object itself is the tag named \<^verbatim>\<open>[document]\<close>. \<open>Comment\<close>
  stands for the strings \<^verbatim>\<open>get_text\<close> leaves out (comments, declarations).
\<close>

datatype node =
    NavigableString string
  | Comment string
  | Tag string "(string \<times> string) list" "node list"

text \<open>\<^verbatim>\<open>tag.descendants\<close>: every node below the tag, in document order.\<close>

fun descendants :: "node \<Rightarrow> node list" where
  "descendants (Tag n a cs) = concat (map (\<lambda>c. c # descendants c) cs)"
| "descendants (NavigableString s) = []"
| "descendants (Comment s) = []"

fun named :: "string list \<Rightarrow> node \<Rightarrow> bool" where
  "named names (Tag n a cs) = (n \<in> set names)"
| "named names (NavigableString s) = False"
| "named names (Comment s) = False"

fun attrs :: "node \<Rightarrow> (string \<times> string) list" where
  "attrs (Tag n a cs) = a"
| "attrs (NavigableString s) = []"
| "attrs (Comment s) = []"

text \<open>The filter \<^verbatim>\<open>key=True\<close> of \<^verbatim>\<open>find_all\<close>: the tag has the attribute.\<close>

definition has_attr :: "string \<Rightarrow> node \<Rightarrow> bool" where
  "has_attr k t = (map_of (attrs t) k \<noteq> None)"

text \<open>The filter \<^verbatim>\<open>attrs={key: v}\<close> of \<^verbatim>\<open>find\<close>: the attribute has that value.\<close>

definition attr_is :: "string \<Rightarrow> string \<Rightarrow> node \<Rightarrow> bool" where
  "attr_is k v t = (map_of (attrs t) k = Some v)"

text \<open>\<^verbatim>\<open>tag.find_all(...)\<close>: the matching descendants, in document order;
  \<^verbatim>\<open>tag.find(...)\<close>: the first of them, or \<^verbatim>\<open>None\<close>.\<close>

definition find_all :: "(node \<Rightarrow> bool) \<Rightarrow> node \<Rightarrow> node list" where
  "find_all matches t = filter matches (descendants t)"

definition soup_find :: "(node \<Rightarrow> bool) \<Rightarrow> node \<Rightarrow> node option" where
  "soup_find matches t = (case find_all matches t of [] \<Rightarrow> None | x # xs \<Rightarrow> Some x)"

fun own_text :: "node \<Rightarrow> string" where
  "own_text (NavigableString s) = s"
| "own_text (Comment s) = []"
| "own_text (Tag n a cs) = []"

text \<open>\<^verbatim>\<open>tag.get_text()\<close>: the strings below the tag, concatenated.\<close>

definition get_text :: "node \<Rightarrow> string" where
  "get_text t = concat (map own_text (descendants t))"

text \<open>\<^verbatim>\<open>tag.string\<close>: the only child if it is a string, the \<^verbatim>\<open>.string\<close> of an only child
  that is a tag, \<^verbatim>\<open>None\<close> for no child or several.\<close>

fun tag_string :: "node \<Rightarrow> string option" where
  "tag_string (NavigableString s) = Some s"
| "tag_string (Comment s) = Some s"
| "tag_string (Tag n a [c]) = tag_string c"
| "tag_string (Tag n a cs) = None"

text \<open>\<^verbatim>\<open>tag.get(key, default)\<close> and \<^verbatim>\<open>tag[key]\<close>.\<close>

definition get_attr :: "node \<Rightarrow> string \<Rightarrow> string \<Rightarrow> string" where
  "get_attr t k d = (case map_of (attrs t) k of None \<Rightarrow> d | Some v \<Rightarrow> v)"

definition tag_item :: "node \<Rightarrow> string \<Rightarrow> exn + string" where
  "tag_item t k = (case map_of (attrs t) k of None \<Rightarrow> Inl (KeyError k) | Some v \<Rightarrow> Inr v)"

section \<open>The HTTP response: requests\<close>

text \<open>
  What \<^verbatim>\<open>requests.get\<close> returns. The header names are kept in lower case (the headers
  of \<^verbatim>\<open>requests\<close> are a case-insensitive dictionary).
\<close>

record response =
  status_code :: nat
  reason :: string
  response_url :: string
  response_headers :: "(string \<times> string) list"
  content :: string

text \<open>\<^verbatim>\<open>response.raise_for_status()\<close>: an \<^verbatim>\<open>HTTPError\<close> for a status from 400 to 599.\<close>

definition raise_for_status :: "response \<Rightarrow> exn + unit" where
  "raise_for_status r =
     (if 400 \<le> status_code r \<and> status_code r < 500
      then Inl (HTTPError (str_nat (status_code r) @ '' Client Error: '' @ reason r
                            @ '' for url: '' @ response_url r))
      else if 500 \<le> status_code r \<and> status_code r < 600
      then Inl (HTTPError (str_nat (status_code r) @ '' Server Error: '' @ reason r
                            @ '' for url: '' @ response_url r))
      else Inr ())"

section \<open>scraper.py\<close>

definition is_valid_url :: "string \<Rightarrow> bool" where
  "is_valid_url url =
     (case urlparse url [] of
        Inl e \<Rightarrow> False
      | Inr result \<Rightarrow> scheme result \<noteq> [] \<and> netloc result \<noteq> [])"

text \<open>The argument is \<^verbatim>\<open>None\<close> or a string; \<^verbatim>\<open>not text\<close> holds for \<^verbatim>\<open>None\<close> and for the
  empty string.\<close>

definition clean_text :: "string option \<Rightarrow> string" where
  "clean_text text =
     (case text of
        None \<Rightarrow> []
      | Some t \<Rightarrow> if t = [] then [] else strip (re_sub_spaces t))"

record link =
  link_text :: string
  link_url :: string
  is_external :: bool

record image =
  img_src :: string
  img_alt :: string
  img_title :: string

record table_entry =
  headers :: "string list"
  rows :: "string list list"

record metadata =
  md_url :: string
  md_title :: string
  md_description :: string
  md_keywords :: string
  md_scrape_timestamp :: string
  md_status_code :: nat
  md_content_type :: string
  md_content_length :: nat

record statistics =
  total_headings :: nat
  total_paragraphs :: nat
  total_links :: nat
  total_images :: nat
  total_tables :: nat
  external_links :: nat

record scraped_data =
  metadata :: metadata
  headings :: "(string \<times> string list) list"
  paragraphs :: "string list"
  links :: "link list"
  images :: "image list"
  tables :: "table_entry list"
  statistics :: statistics

text \<open>The loop over the anchors (lines 87 to 100); \<open>acc\<close> is the list \<^verbatim>\<open>links\<close>.\<close>

fun links_loop :: "string \<Rightarrow> node list \<Rightarrow> link list \<Rightarrow> exn + link list" where
  "links_loop url [] acc = Inr acc"
| "links_loop url (a # rest) acc =
     (case tag_item a ''href'' of
        Inl e \<Rightarrow> Inl e
      | Inr href \<Rightarrow>
         (let text = clean_text (Some (get_text a))
          in case urljoin url href of
               Inl e \<Rightarrow> Inl e
             | Inr full_url \<Rightarrow>
                if is_valid_url full_url
                then (case urlparse full_url [] of
                        Inl e \<Rightarrow> Inl e
                      | Inr r1 \<Rightarrow>
                         (case urlparse url [] of
                            Inl e \<Rightarrow> Inl e
                          | Inr r2 \<Rightarrow>
                             links_loop url rest
                               (acc @ [\<lparr>link_text = (if text = [] then ''[No Text]'' else text),
                                        link_url = full_url,
                                        is_external = (netloc r1 \<noteq> netloc r2)\<rparr>])))
                else links_loop url rest acc))"

text \<open>The loop over the images (lines 104 to 116); \<open>acc\<close> is the list \<^verbatim>\<open>images\<close>.\<close>

fun images_loop :: "string \<Rightarrow> node list \<Rightarrow> image list \<Rightarrow> exn + image list" where
  "images_loop url [] acc = Inr acc"
| "images_loop url (img # rest) acc =
     (case tag_item img ''src'' of
        Inl e \<Rightarrow> Inl e
      | Inr src \<Rightarrow>
         (let alt = get_attr img ''alt'' ''No alt text''
          in case urljoin url src of
               Inl e \<Rightarrow> Inl e
             | Inr full_src \<Rightarrow>
                if is_valid_url full_src
                then images_loop url rest
                       (acc @ [\<lparr>img_src = full_src,
                                img_alt = clean_text (Some alt),
                                img_title = get_attr img ''title'' []\<rparr>])
                else images_loop url rest acc))"

text \<open>The loops of the table extraction (lines 120 to 140): over the header cells, over
  the cells of a row, over the rows of a table and over the tables.\<close>

fun headers_loop :: "node list \<Rightarrow> string list \<Rightarrow> string list" where
  "headers_loop [] acc = acc"
| "headers_loop (th # rest) acc = headers_loop rest (acc @ [clean_text (Some (get_text th))])"

fun cells_loop :: "node list \<Rightarrow> string list \<Rightarrow> string list" where
  "cells_loop [] row_data = row_data"
| "cells_loop (cell # rest) row_data =
     cells_loop rest (row_data @ [clean_text (Some (get_text cell))])"

fun rows_loop :: "node list \<Rightarrow> string list list \<Rightarrow> string list list" where
  "rows_loop [] table_data = table_data"
| "rows_loop (row # rest) table_data =
     (let row_data = cells_loop (find_all (named [''td'', ''th'']) row) []
      in if row_data \<noteq> [] then rows_loop rest (table_data @ [row_data])
         else rows_loop rest table_data)"

fun tables_loop :: "node list \<Rightarrow> table_entry list \<Rightarrow> table_entry list" where
  "tables_loop [] acc = acc"
| "tables_loop (table # rest) acc =
     (let hs = headers_loop (find_all (named [''th'']) table) [];
          table_data = rows_loop (find_all (named [''tr'']) table) []
      in if table_data \<noteq> []
         then tables_loop rest (acc @ [\<lparr>headers = hs, rows = table_data\<rparr>])
         else tables_loop rest acc)"

text \<open>The body of the \<^verbatim>\<open>try\<close> block after \<^verbatim>\<open>requests.get\<close> has returned \<open>resp\<close>;
  \<open>soup\<close> is the tree parsed from its content and \<open>now\<close> is
  \<^verbatim>\<open>datetime.now().isoformat()\<close>.\<close>

definition scrape_response :: "string \<Rightarrow> response \<Rightarrow> node \<Rightarrow> string \<Rightarrow> exn + scraped_data" where
  "scrape_response url resp soup now =
     (case raise_for_status resp of
        Inl e \<Rightarrow> Inl e
      | Inr u \<Rightarrow>
         (let page_title = (case soup_find (named [''title'']) soup of
                              Some t \<Rightarrow> tag_string t
                            | None \<Rightarrow> Some ''No Title'');
              hs = map (\<lambda>level. (level, map (\<lambda>h. clean_text (Some (get_text h)))
                                          (find_all (named [level]) soup)))
                     [''h1'', ''h2'', ''h3'', ''h4'', ''h5'', ''h6''];
              ps = map (\<lambda>p. clean_text (Some (get_text p)))
                     (take 50 (find_all (named [''p'']) soup))
          in case links_loop url
                    (take 100 (find_all (\<lambda>t. named [''a''] t \<and> has_attr ''href'' t) soup)) [] of
               Inl e \<Rightarrow> Inl e
             | Inr ls \<Rightarrow>
                (case images_loop url
                        (take 50 (find_all (\<lambda>t. named [''img''] t \<and> has_attr ''src'' t) soup)) [] of
                   Inl e \<Rightarrow> Inl e
                 | Inr imgs \<Rightarrow>
                    (let ts = tables_loop (take 10 (find_all (named [''table'']) soup)) [];
                         meta_desc = (case soup_find (\<lambda>t. named [''meta''] t
                                                \<and> attr_is ''name'' ''description'' t) soup of
                                        Some meta_tag \<Rightarrow> get_attr meta_tag ''content'' []
                                      | None \<Rightarrow> []);
                         meta_keywords = (case soup_find (\<lambda>t. named [''meta''] t
                                                    \<and> attr_is ''name'' ''keywords'' t) soup of
                                            Some keywords_tag \<Rightarrow> get_attr keywords_tag ''content'' []
                                          | None \<Rightarrow> [])
                     in Inr \<lparr>metadata =
                               \<lparr>md_url = url,
                                md_title = clean_text page_title,
                                md_description = clean_text (Some meta_desc),
                                md_keywords = clean_text (Some meta_keywords),
                                md_scrape_timestamp = now,
                                md_status_code = status_code resp,
                                md_content_type =
                                  (case map_of (response_headers resp) ''content-type'' of
                                     None \<Rightarrow> [] | Some v \<Rightarrow> v),
                                md_content_length = length (content resp)\<rparr>,
                             headings = hs,
                             paragraphs = ps,
                             links = ls,
                             images = imgs,
                             tables = ts,
                             statistics =
                               \<lparr>total_headings = sum_list (map (\<lambda>h. length (snd h)) hs),
                                total_paragraphs = length ps,
                                total_links = length ls,
                                total_images = length imgs,
                                total_tables = length ts,
                                external_links = length (filter is_external ls)\<rparr>\<rparr>))))"

text \<open>
  \<^verbatim>\<open>scrape_website(url)\<close>. \<open>got\<close> is the outcome of \<^verbatim>\<open>requests.get\<close>: the response, or the
  exception it raised. The two \<^verbatim>\<open>except\<close> clauses turn every exception of the block into
  an \<^verbatim>\<open>Exception\<close> that keeps only the message.
\<close>

definition scrape_website ::
  "string \<Rightarrow> exn + response \<Rightarrow> node \<Rightarrow> string \<Rightarrow> error + scraped_data" where
  "scrape_website url got soup now =
     (case (case got of Inl e \<Rightarrow> Inl e | Inr resp \<Rightarrow> scrape_response url resp soup now) of
        Inr scraped_data \<Rightarrow> Inr scraped_data
      | Inl e \<Rightarrow>
          if is_RequestException e
          then Inl (Exception (''Failed to fetch URL: '' @ str_exn e))
          else Inl (Exception (''Scraping failed: '' @ str_exn e)))"

section \<open>The properties, in the words of the specification\<close>

text \<open>The elements the link and image extractors read: \<^verbatim>\<open>a[href]\<close> and \<^verbatim>\<open>img[src]\<close>.\<close>

abbreviation anchor_tags :: "node \<Rightarrow> node list" where
  "anchor_tags soup \<equiv> find_all (\<lambda>t. named [''a''] t \<and> has_attr ''href'' t) soup"

abbreviation img_tags :: "node \<Rightarrow> node list" where
  "img_tags soup \<equiv> find_all (\<lambda>t. named [''img''] t \<and> has_attr ''src'' t) soup"

text \<open>The filter of \<^verbatim>\<open>soup.find('meta', attrs={'name': v})\<close>.\<close>

abbreviation meta_named :: "string \<Rightarrow> node \<Rightarrow> bool" where
  "meta_named v \<equiv> (\<lambda>t. named [''meta''] t \<and> attr_is ''name'' v t)"

text \<open>Normalized text: every whitespace character is a space, no two of them are
  adjacent, and none stands first or last.\<close>

fun collapsed :: "string \<Rightarrow> bool" where
  "collapsed [] = True"
| "collapsed [c] = (isspace c \<longrightarrow> c = CHR '' '')"
| "collapsed (c # d # cs) =
     ((isspace c \<longrightarrow> c = CHR '' '' \<and> \<not> isspace d) \<and> collapsed (d # cs))"

definition normalized :: "string \<Rightarrow> bool" where
  "normalized s = (collapsed s \<and> (s \<noteq> [] \<longrightarrow> \<not> isspace (hd s) \<and> \<not> isspace (last s)))"

text \<open>The normalized text of a cell; the header cells of a table (\<^verbatim>\<open>th\<close> anywhere in it);
  its rows (the cells \<^verbatim>\<open>td\<close> or \<^verbatim>\<open>th\<close> of each \<^verbatim>\<open>tr\<close>, rows with no cell dropped).\<close>

definition cell_text :: "node \<Rightarrow> string" where
  "cell_text c = clean_text (Some (get_text c))"

definition spec_headers :: "node \<Rightarrow> string list" where
  "spec_headers table = map cell_text (find_all (named [''th'']) table)"

definition spec_rows :: "node \<Rightarrow> string list list" where
  "spec_rows table =
     filter (\<lambda>r. r \<noteq> [])
       (map (\<lambda>row. map cell_text (find_all (named [''td'', ''th'']) row))
            (find_all (named [''tr'']) table))"

text \<open>The resolved URL of the attribute \<open>k\<close> of a tag against the page's URL (\<open>None\<close> when
  the attribute is missing or the resolution raises), and that URL when it passes the
  validation.\<close>

definition resolve_attr :: "string \<Rightarrow> string \<Rightarrow> node \<Rightarrow> string option" where
  "resolve_attr url k t =
     (case tag_item t k of
        Inl e \<Rightarrow> None
      | Inr v \<Rightarrow> (case urljoin url v of Inl e \<Rightarrow> None | Inr u \<Rightarrow> Some u))"

definition valid_target :: "string \<Rightarrow> string \<Rightarrow> node \<Rightarrow> string option" where
  "valid_target url k t =
     (case resolve_attr url k t of
        None \<Rightarrow> None
      | Some u \<Rightarrow> if is_valid_url u then Some u else None)"

text \<open>A link entry is classified as the specification says: external exactly when the
  network location of its URL differs from that of the page's URL.\<close>

definition external_ok :: "string \<Rightarrow> link \<Rightarrow> bool" where
  "external_ok url l =
     (case urlparse (link_url l) [] of
        Inl e \<Rightarrow> False
      | Inr r1 \<Rightarrow> (case urlparse url [] of
                    Inl e \<Rightarrow> False
                  | Inr r2 \<Rightarrow> is_external l = (netloc r1 \<noteq> netloc r2)))"

section \<open>Example pages\<close>

text \<open>A response with status 200, and a page with a title, a description, a heading, a
  paragraph, three anchors (one internal, one external, one \<^verbatim>\<open>mailto:\<close>), an image and two
  tables, the second without cells.\<close>

definition example_table :: node where
  "example_table =
     Tag ''table'' []
       [Tag ''tr'' [] [Tag ''th'' [] [NavigableString ''h1''], Tag ''th'' [] [NavigableString ''h2'']],
        Tag ''tr'' [] [Tag ''td'' [] [NavigableString ''c1''], Tag ''td'' [] [NavigableString ''c2'']]]"

definition example_page :: node where
  "example_page =
     Tag ''[document]'' []
       [Tag ''html'' []
          [Tag ''head'' []
             [Tag ''title'' [] [NavigableString '' T ''],
              Tag ''meta'' [(''name'', ''description''), (''content'', ''summary'')] []],
           Tag ''body'' []
             [Tag ''h1'' [] [NavigableString ''Hi''],
              Tag ''p'' [] [NavigableString ''Hello world''],
              Tag ''a'' [(''href'', ''/y'')] [NavigableString ''link''],
              Tag ''a'' [(''href'', ''https://other.org/x'')] [],
              Tag ''a'' [(''href'', ''mailto:me@example.com'')] [NavigableString ''mail''],
              Tag ''img'' [(''src'', ''pic.png'')] [],
              example_table,
              Tag ''table'' [] [Tag ''tr'' [] []]]]]"

text \<open>The markup of the example page, and the response with status 200 that carries a
  given body.\<close>

definition example_markup :: string where
  "example_markup =
     ''<html><head><title> T </title><meta name=description content=summary></head>''
     @ ''<body><h1>Hi</h1><p>Hello world</p><a href=/y>link</a>''
     @ ''<a href=https://other.org/x></a><a href=mailto:me@example.com>mail</a>''
     @ ''<img src=pic.png>''
     @ ''<table><tr><th>h1</th><th>h2</th></tr><tr><td>c1</td><td>c2</td></tr></table>''
     @ ''<table><tr></tr></table></body></html>''"

definition ok_response :: "string \<Rightarrow> response" where
  "ok_response body =
     \<lparr>status_code = 200, reason = ''OK'', response_url = ''https://example.com'',
      response_headers = [(''content-type'', ''text/html'')], content = body\<rparr>"

definition example_response :: response where
  "example_response = ok_response example_markup"

text \<open>The document the example page yields.\<close>

definition example_data :: scraped_data where
  "example_data =
     \<lparr>metadata =
        \<lparr>md_url = ''https://example.com'', md_title = ''T'', md_description = ''summary'',
         md_keywords = [], md_scrape_timestamp = ''2024-01-01T00:00:00'',
         md_status_code = 200, md_content_type = ''text/html'', md_content_length = 332\<rparr>,
      headings = [(''h1'', [''Hi'']), (''h2'', []), (''h3'', []), (''h4'', []),
                  (''h5'', []), (''h6'', [])],
      paragraphs = [''Hello world''],
      links = [\<lparr>link_text = ''link'', link_url = ''https://example.com/y'',
                 is_external = False\<rparr>,
               \<lparr>link_text = ''[No Text]'', link_url = ''https://other.org/x'',
                 is_external = True\<rparr>],
      images = [\<lparr>img_src = ''https://example.com/pic.png'', img_alt = ''No alt text'',
                  img_title = []\<rparr>],
      tables = [\<lparr>headers = [''h1'', ''h2''],
                  rows = [[''h1'', ''h2''], [''c1'', ''c2'']]\<rparr>],
      statistics =
        \<lparr>total_headings = 1, total_paragraphs = 1, total_links = 2, total_images = 1,
         total_tables = 1, external_links = 1\<rparr>\<rparr>"

text \<open>A page of 200 paragraphs and 150 anchors, and a page whose first anchor does not
  resolve to a valid URL and is followed by 150 anchors that do.\<close>

definition bulk_markup :: string where
  "bulk_markup =
     concat (replicate 200 ''<p>text</p>'') @ concat (replicate 150 ''<a href=/x>link</a>'')"

definition bulk_page :: node where
  "bulk_page =
     Tag ''[document]'' []
       (replicate 200 (Tag ''p'' [] [NavigableString ''text''])
        @ replicate 150 (Tag ''a'' [(''href'', ''/x'')] [NavigableString ''link'']))"

definition crowded_markup :: string where
  "crowded_markup =
     ''<a href=mailto:me@example.com>mail</a>'' @ concat (replicate 150 ''<a href=/x>link</a>'')"

definition crowded_page :: node where
  "crowded_page =
     Tag ''[document]'' []
       (Tag ''a'' [(''href'', ''mailto:me@example.com'')] [NavigableString ''mail'']
        # replicate 150 (Tag ''a'' [(''href'', ''/x'')] [NavigableString ''link'']))"

text \<open>A page that is one table of a header row and a data row, and an empty page.\<close>

definition table_markup :: string where
  "table_markup =
     ''<table><tr><th>h1</th><th>h2</th></tr><tr><td>c1</td><td>c2</td></tr></table>''"

definition table_page :: node where
  "table_page = Tag ''[document]'' [] [example_table]"

definition bare_page :: node where
  "bare_page = Tag ''[document]'' [] []"

text \<open>A page whose only table has a row without cells.\<close>

definition empty_table_markup :: string where
  "empty_table_markup = ''<table><tr></tr></table>''"

definition empty_table_page :: node where
  "empty_table_page = Tag ''[document]'' [] [Tag ''table'' [] [Tag ''tr'' [] []]]"

text \<open>A response with status 300 (a redirection without a target, which \<^verbatim>\<open>requests\<close>
  returns as it is) and one with status 404.\<close>

definition redirect_response :: response where
  "redirect_response =
     \<lparr>status_code = 300, reason = ''Multiple Choices'', response_url = ''https://example.com'',
      response_headers = [], content = []\<rparr>"

definition not_found_response :: response where
  "not_found_response =
     \<lparr>status_code = 404, reason = ''Not Found'', response_url = ''https://example.com/missing'',
      response_headers = [], content = []\<rparr>"

section \<open>Text normalization\<close>

lemma collapsed_re_sub_spaces: "collapsed (re_sub_spaces s)"
proof (induction s rule: re_sub_spaces.induct)
  case 1
  show ?case by simp
next
  case (2 c cs)
  show ?case
  proof (cases "isspace c")
    case True
    let ?r = "dropWhile isspace cs"
    from True 2 have ih: "collapsed (re_sub_spaces ?r)" by simp
    show ?thesis
    proof (cases ?r)
      case Nil
      show ?thesis using True by (simp add: Nil)
    next
      case (Cons d ds)
      then have "\<not> isspace d" using hd_dropWhile [of isspace cs] by auto
      with Cons ih True show ?thesis by auto
    qed
  next
    case False
    with 2 have ih: "collapsed (re_sub_spaces cs)" by simp
    from False ih show ?thesis by (cases "re_sub_spaces cs") auto
  qed
qed

lemma re_sub_spaces_collapsed: "collapsed s \<Longrightarrow> re_sub_spaces s = s"
proof (induction s rule: collapsed.induct)
  case 1
  show ?case by simp
next
  case (2 c)
  then show ?case by auto
next
  case (3 c d cs)
  then show ?case by (cases "isspace c") auto
qed

lemma collapsed_append_left: "collapsed (xs @ ys) \<Longrightarrow> collapsed xs"
proof (induction xs rule: collapsed.induct)
  case 1
  show ?case by simp
next
  case (2 c)
  then show ?case by (cases ys) auto
next
  case (3 c d cs)
  then show ?case by auto
qed

lemma collapsed_dropWhile: "collapsed s \<Longrightarrow> collapsed (dropWhile P s)"
proof (induction s rule: collapsed.induct)
  case 1
  show ?case by simp
next
  case (2 c)
  then show ?case by auto
next
  case (3 c d cs)
  then show ?case by auto
qed

text \<open>\<open>strip s\<close> is what is left of \<open>s\<close> without its leading whitespace when the trailing
  whitespace is cut off.\<close>

lemma strip_prefix:
  "dropWhile isspace s = strip s @ rev (takeWhile isspace (rev (dropWhile isspace s)))"
proof -
  let ?t = "dropWhile isspace s"
  have "strip s @ rev (takeWhile isspace (rev ?t))
        = rev (takeWhile isspace (rev ?t) @ dropWhile isspace (rev ?t))"
    by (simp only: rev_append strip_def)
  also have "\<dots> = rev (rev ?t)" by (simp only: takeWhile_dropWhile_id)
  also have "\<dots> = ?t" by simp
  finally show ?thesis by simp
qed

lemma strip_ends:
  assumes "strip s \<noteq> []"
  shows "\<not> isspace (hd (strip s))" and "\<not> isspace (last (strip s))"
proof -
  let ?t = "dropWhile isspace s"
  from assms have ne: "dropWhile isspace (rev ?t) \<noteq> []" by (simp add: strip_def)
  have "last (strip s) = hd (dropWhile isspace (rev ?t))"
    using ne by (simp add: strip_def last_rev)
  then show "\<not> isspace (last (strip s))" using ne hd_dropWhile [of isspace "rev ?t"] by simp
  have "hd (strip s @ rev (takeWhile isspace (rev ?t))) = hd (strip s)"
    using assms by simp
  then have hd_eq: "hd ?t = hd (strip s)" using strip_prefix [of s] by simp
  have "?t \<noteq> []" using assms strip_prefix [of s] by (cases "?t = []") simp_all
  then have "\<not> isspace (hd ?t)" by (rule hd_dropWhile)
  with hd_eq show "\<not> isspace (hd (strip s))" by simp
qed

lemma collapsed_strip: "collapsed s \<Longrightarrow> collapsed (strip s)"
proof -
  assume "collapsed s"
  then have "collapsed (dropWhile isspace s)" by (rule collapsed_dropWhile)
  then have "collapsed (strip s @ rev (takeWhile isspace (rev (dropWhile isspace s))))"
    using strip_prefix [of s] by simp
  then show ?thesis by (rule collapsed_append_left)
qed

lemma strip_normalized: "normalized s \<Longrightarrow> strip s = s"
proof (cases "s = []")
  case True
  then show ?thesis by (simp add: strip_def)
next
  case False
  assume "normalized s"
  with False have h: "\<not> isspace (hd s)" and l: "\<not> isspace (last s)"
    by (simp_all add: normalized_def)
  from False h have d: "dropWhile isspace s = s" by (cases s) auto
  from False l have "dropWhile isspace (rev s) = rev s"
    by (cases s rule: rev_cases) auto
  with d show ?thesis by (simp add: strip_def)
qed

lemma normalized_clean_text: "normalized (clean_text s)"
proof (cases s)
  case None
  then show ?thesis by (simp add: clean_text_def normalized_def)
next
  case (Some t)
  show ?thesis
  proof (cases "t = []")
    case True
    with Some show ?thesis by (simp add: clean_text_def normalized_def)
  next
    case False
    have "collapsed (strip (re_sub_spaces t))"
      by (rule collapsed_strip) (rule collapsed_re_sub_spaces)
    with Some False show ?thesis
      using strip_ends [of "re_sub_spaces t"] by (simp add: clean_text_def normalized_def)
  qed
qed

lemma clean_text_normalized: "normalized s \<Longrightarrow> clean_text (Some s) = s"
  by (simp add: clean_text_def strip_normalized re_sub_spaces_collapsed normalized_def)

section \<open>The loops of the extraction\<close>

lemma headers_loop_map: "headers_loop xs acc = acc @ map cell_text xs"
  by (induction xs arbitrary: acc) (simp_all add: cell_text_def)

lemma cells_loop_map: "cells_loop xs acc = acc @ map cell_text xs"
  by (induction xs arbitrary: acc) (simp_all add: cell_text_def)

lemma rows_loop_filter:
  "rows_loop xs acc =
     acc @ filter (\<lambda>r. r \<noteq> []) (map (\<lambda>row. map cell_text (find_all (named [''td'', ''th'']) row)) xs)"
  by (induction xs arbitrary: acc) (simp_all add: cells_loop_map Let_def)

lemma tables_loop_filter:
  "tables_loop ts acc =
     acc @ map (\<lambda>t. \<lparr>headers = spec_headers t, rows = spec_rows t\<rparr>)
             (filter (\<lambda>t. spec_rows t \<noteq> []) ts)"
  by (induction ts arbitrary: acc)
     (simp_all add: Let_def rows_loop_filter headers_loop_map spec_rows_def spec_headers_def)

lemma links_loop_Cons:
  assumes "links_loop url (a # rest) acc = Inr ls"
  obtains (skip) href full where "tag_item a ''href'' = Inr href" and "urljoin url href = Inr full"
      and "\<not> is_valid_url full" and "links_loop url rest acc = Inr ls"
  | (add) href full r1 r2 where "tag_item a ''href'' = Inr href" and "urljoin url href = Inr full"
      and "is_valid_url full" and "urlparse full [] = Inr r1" and "urlparse url [] = Inr r2"
      and "links_loop url rest
             (acc @ [\<lparr>link_text = (if clean_text (Some (get_text a)) = [] then ''[No Text]''
                                    else clean_text (Some (get_text a))),
                      link_url = full, is_external = (netloc r1 \<noteq> netloc r2)\<rparr>]) = Inr ls"
  using assms by (auto simp: Let_def split: sum.splits if_splits)

lemma links_loop_urls:
  "links_loop url xs acc = Inr ls \<Longrightarrow>
     map link_url ls = map link_url acc @ List.map_filter (valid_target url ''href'') xs"
proof (induction xs arbitrary: acc)
  case Nil
  then show ?case by (simp add: List.map_filter_simps)
next
  case (Cons a rest)
  from Cons.prems show ?case
  proof (cases rule: links_loop_Cons)
    case (skip href full)
    then show ?thesis
      using Cons.IH [of acc]
      by (simp add: List.map_filter_simps valid_target_def resolve_attr_def)
  next
    case (add href full r1 r2)
    then show ?thesis
      using Cons.IH [OF add(6)]
      by (simp add: List.map_filter_simps valid_target_def resolve_attr_def)
  qed
qed

lemma links_loop_length:
  "links_loop url xs acc = Inr ls \<Longrightarrow> length ls \<le> length acc + length xs"
proof (induction xs arbitrary: acc)
  case Nil
  then show ?case by simp
next
  case (Cons a rest)
  from Cons.prems show ?case
  proof (cases rule: links_loop_Cons)
    case (skip href full)
    then show ?thesis using Cons.IH [of acc] by simp
  next
    case (add href full r1 r2)
    then show ?thesis using Cons.IH [OF add(6)] by simp
  qed
qed

lemma links_loop_invariant:
  assumes "links_loop url xs acc = Inr ls" and "list_all P acc"
    and step: "\<And>full r1 r2 t. is_valid_url full \<Longrightarrow> urlparse full [] = Inr r1 \<Longrightarrow>
                 urlparse url [] = Inr r2 \<Longrightarrow>
                 P \<lparr>link_text = t, link_url = full, is_external = (netloc r1 \<noteq> netloc r2)\<rparr>"
  shows "list_all P ls"
  using assms(1,2)
proof (induction xs arbitrary: acc)
  case Nil
  then show ?case by simp
next
  case (Cons a rest)
  from Cons.prems(1) show ?case
  proof (cases rule: links_loop_Cons)
    case (skip href full)
    then show ?thesis using Cons.IH [of acc] Cons.prems(2) by simp
  next
    case (add href full r1 r2)
    have "list_all P (acc @ [\<lparr>link_text = (if clean_text (Some (get_text a)) = [] then ''[No Text]''
                                    else clean_text (Some (get_text a))),
                      link_url = full, is_external = (netloc r1 \<noteq> netloc r2)\<rparr>])"
      using Cons.prems(2) step [OF add(3,4,5)] by simp
    with add(6) show ?thesis by (rule Cons.IH)
  qed
qed

lemma links_loop_valid:
  "links_loop url xs [] = Inr ls \<Longrightarrow> list_all (\<lambda>l. is_valid_url (link_url l)) ls"
  by (erule links_loop_invariant) simp_all

lemma links_loop_external:
  "links_loop url xs [] = Inr ls \<Longrightarrow> list_all (external_ok url) ls"
  by (erule links_loop_invariant) (simp_all add: external_ok_def)

lemma images_loop_Cons:
  assumes "images_loop url (a # rest) acc = Inr ims"
  obtains (skip) src full where "tag_item a ''src'' = Inr src" and "urljoin url src = Inr full"
      and "\<not> is_valid_url full" and "images_loop url rest acc = Inr ims"
  | (add) src full where "tag_item a ''src'' = Inr src" and "urljoin url src = Inr full"
      and "is_valid_url full"
      and "images_loop url rest
             (acc @ [\<lparr>img_src = full,
                      img_alt = clean_text (Some (get_attr a ''alt'' ''No alt text'')),
                      img_title = get_attr a ''title'' []\<rparr>]) = Inr ims"
  using assms by (auto simp: Let_def split: sum.splits if_splits)

lemma images_loop_srcs:
  "images_loop url xs acc = Inr ims \<Longrightarrow>
     map img_src ims = map img_src acc @ List.map_filter (valid_target url ''src'') xs"
proof (induction xs arbitrary: acc)
  case Nil
  then show ?case by (simp add: List.map_filter_simps)
next
  case (Cons a rest)
  from Cons.prems show ?case
  proof (cases rule: images_loop_Cons)
    case (skip src full)
    then show ?thesis
      using Cons.IH [of acc]
      by (simp add: List.map_filter_simps valid_target_def resolve_attr_def)
  next
    case (add src full)
    then show ?thesis
      using Cons.IH [OF add(4)]
      by (simp add: List.map_filter_simps valid_target_def resolve_attr_def)
  qed
qed

lemma images_loop_valid:
  "images_loop url xs acc = Inr ims \<Longrightarrow> list_all (\<lambda>i. is_valid_url (img_src i)) acc \<Longrightarrow>
     list_all (\<lambda>i. is_valid_url (img_src i)) ims"
proof (induction xs arbitrary: acc)
  case Nil
  then show ?case by simp
next
  case (Cons a rest)
  from Cons.prems(1) show ?case
  proof (cases rule: images_loop_Cons)
    case (skip src full)
    then show ?thesis using Cons.IH [of acc] Cons.prems(2) by simp
  next
    case (add src full)
    then show ?thesis using Cons.IH [OF add(4)] Cons.prems(2) by simp
  qed
qed

section \<open>The pipeline\<close>

text \<open>What a returned document says about the run that produced it.\<close>

lemma scrape_website_Inr:
  assumes "scrape_website url got soup now = Inr d"
  obtains resp where "got = Inr resp" and "raise_for_status resp = Inr ()"
    and "links_loop url (take 100 (anchor_tags soup)) [] = Inr (links d)"
    and "images_loop url (take 50 (img_tags soup)) [] = Inr (images d)"
    and "paragraphs d = map (\<lambda>p. clean_text (Some (get_text p)))
                          (take 50 (find_all (named [''p'']) soup))"
    and "tables d = tables_loop (take 10 (find_all (named [''table'']) soup)) []"
    and "headings d = map (\<lambda>level. (level, map (\<lambda>h. clean_text (Some (get_text h)))
                                              (find_all (named [level]) soup)))
                         [''h1'', ''h2'', ''h3'', ''h4'', ''h5'', ''h6'']"
    and "statistics d =
           \<lparr>total_headings = sum_list (map (\<lambda>h. length (snd h)) (headings d)),
            total_paragraphs = length (paragraphs d),
            total_links = length (links d),
            total_images = length (images d),
            total_tables = length (tables d),
            external_links = length (filter is_external (links d))\<rparr>"
    and "metadata d =
           \<lparr>md_url = url,
            md_title = clean_text (case soup_find (named [''title'']) soup of
                                     Some t \<Rightarrow> tag_string t
                                   | None \<Rightarrow> Some ''No Title''),
            md_description = clean_text (Some
              (case soup_find (\<lambda>t. named [''meta''] t \<and> attr_is ''name'' ''description'' t) soup of
                 Some meta_tag \<Rightarrow> get_attr meta_tag ''content'' []
               | None \<Rightarrow> [])),
            md_keywords = clean_text (Some
              (case soup_find (\<lambda>t. named [''meta''] t \<and> attr_is ''name'' ''keywords'' t) soup of
                 Some keywords_tag \<Rightarrow> get_attr keywords_tag ''content'' []
               | None \<Rightarrow> [])),
            md_scrape_timestamp = now,
            md_status_code = status_code resp,
            md_content_type = (case map_of (response_headers resp) ''content-type'' of
                                 None \<Rightarrow> [] | Some v \<Rightarrow> v),
            md_content_length = length (content resp)\<rparr>"
    and "md_title (metadata d) =
           clean_text (case soup_find (named [''title'']) soup of
                         Some t \<Rightarrow> tag_string t
                       | None \<Rightarrow> Some ''No Title'')"
    and "md_description (metadata d) =
           clean_text (Some
             (case soup_find (\<lambda>t. named [''meta''] t \<and> attr_is ''name'' ''description'' t) soup of
                Some meta_tag \<Rightarrow> get_attr meta_tag ''content'' []
              | None \<Rightarrow> []))"
    and "md_keywords (metadata d) =
           clean_text (Some
             (case soup_find (\<lambda>t. named [''meta''] t \<and> attr_is ''name'' ''keywords'' t) soup of
                Some keywords_tag \<Rightarrow> get_attr keywords_tag ''content'' []
              | None \<Rightarrow> []))"
proof -
  from assms obtain resp where got: "got = Inr resp"
    and body: "scrape_response url resp soup now = Inr d"
    by (auto simp: scrape_website_def split: sum.splits if_splits)
  from body have ok: "raise_for_status resp = Inr ()"
    by (auto simp: scrape_response_def split: sum.splits)
  from body ok obtain ls where ls: "links_loop url (take 100 (anchor_tags soup)) [] = Inr ls"
    by (auto simp: scrape_response_def Let_def split: sum.splits)
  from body ok ls obtain ims where ims: "images_loop url (take 50 (img_tags soup)) [] = Inr ims"
    by (auto simp: scrape_response_def Let_def split: sum.splits)
  from body ok ls ims have d: "d = \<lparr>metadata =
           \<lparr>md_url = url,
            md_title = clean_text (case soup_find (named [''title'']) soup of
                                     Some t \<Rightarrow> tag_string t
                                   | None \<Rightarrow> Some ''No Title''),
            md_description = clean_text (Some
              (case soup_find (\<lambda>t. named [''meta''] t \<and> attr_is ''name'' ''description'' t) soup of
                 Some meta_tag \<Rightarrow> get_attr meta_tag ''content'' []
               | None \<Rightarrow> [])),
            md_keywords = clean_text (Some
              (case soup_find (\<lambda>t. named [''meta''] t \<and> attr_is ''name'' ''keywords'' t) soup of
                 Some keywords_tag \<Rightarrow> get_attr keywords_tag ''content'' []
               | None \<Rightarrow> [])),
            md_scrape_timestamp = now,
            md_status_code = status_code resp,
            md_content_type = (case map_of (response_headers resp) ''content-type'' of
                                 None \<Rightarrow> [] | Some v \<Rightarrow> v),
            md_content_length = length (content resp)\<rparr>,
         headings = map (\<lambda>level. (level, map (\<lambda>h. clean_text (Some (get_text h)))
                                              (find_all (named [level]) soup)))
                         [''h1'', ''h2'', ''h3'', ''h4'', ''h5'', ''h6''],
         paragraphs = map (\<lambda>p. clean_text (Some (get_text p)))
                          (take 50 (find_all (named [''p'']) soup)),
         links = ls, images = ims,
         tables = tables_loop (take 10 (find_all (named [''table'']) soup)) [],
         statistics =
           \<lparr>total_headings = sum_list (map (\<lambda>h. length (snd h))
               (map (\<lambda>level. (level, map (\<lambda>h. clean_text (Some (get_text h)))
                                              (find_all (named [level]) soup)))
                         [''h1'', ''h2'', ''h3'', ''h4'', ''h5'', ''h6''])),
            total_paragraphs = length (map (\<lambda>p. clean_text (Some (get_text p)))
                          (take 50 (find_all (named [''p'']) soup))),
            total_links = length ls,
            total_images = length ims,
            total_tables = length (tables_loop (take 10 (find_all (named [''table'']) soup)) []),
            external_links = length (filter is_external ls)\<rparr>\<rparr>"
    unfolding scrape_response_def Let_def by simp
  show thesis
    by (rule that [OF got ok]) (simp_all only: d scraped_data.simps metadata.simps ls ims)
qed

lemma raise_for_status_ok:
  "(raise_for_status resp = Inr ()) = (\<not> (400 \<le> status_code resp \<and> status_code resp < 600))"
  by (auto simp: raise_for_status_def)

lemma scrape_website_returns:
  assumes "raise_for_status resp = Inr ()"
    and "links_loop url (take 100 (anchor_tags soup)) [] = Inr ls"
    and "images_loop url (take 50 (img_tags soup)) [] = Inr ims"
  shows "\<exists>d. scrape_website url (Inr resp) soup now = Inr d"
  using assms by (simp add: scrape_website_def scrape_response_def Let_def)

subsection \<open>When the extraction returns\<close>

lemma urlparse_empty: "\<exists>r. urlparse [] [] = Inr r"
  by (simp add: urlparse_def urlsplit_def split_fragment_query_def Let_def)

lemma is_valid_url_parses: "is_valid_url u \<Longrightarrow> \<exists>r. urlparse u [] = Inr r"
  by (auto simp: is_valid_url_def split: sum.splits)

lemma urljoin_base_parses:
  assumes "urljoin url href = Inr full" and "is_valid_url full"
  shows "\<exists>r. urlparse url [] = Inr r"
proof (cases "url = []")
  case True
  then show ?thesis using urlparse_empty by simp
next
  case False
  show ?thesis
  proof (cases "href = []")
    case True
    with False assms(1) have "full = url" by (simp add: urljoin_def)
    with assms(2) show ?thesis by (simp add: is_valid_url_parses)
  next
    case href: False
    from assms(1) False href show ?thesis
      by (cases "urlparse url []") (simp_all add: urljoin_def)
  qed
qed

lemma links_loop_returns:
  "list_all (\<lambda>a. resolve_attr url ''href'' a \<noteq> None) xs \<Longrightarrow> \<exists>ls. links_loop url xs acc = Inr ls"
proof (induction xs arbitrary: acc)
  case Nil
  show ?case by simp
next
  case (Cons a rest)
  from Cons.prems obtain href full where href: "tag_item a ''href'' = Inr href"
    and full: "urljoin url href = Inr full"
    by (auto simp: resolve_attr_def split: sum.splits)
  from Cons.prems have rest: "list_all (\<lambda>a. resolve_attr url ''href'' a \<noteq> None) rest" by simp
  show ?case
  proof (cases "is_valid_url full")
    case True
    from True obtain r1 where r1: "urlparse full [] = Inr r1"
      using is_valid_url_parses by blast
    from full True obtain r2 where r2: "urlparse url [] = Inr r2"
      using urljoin_base_parses by blast
    from href full True r1 r2 show ?thesis
      using Cons.IH [OF rest] by (simp add: Let_def)
  next
    case False
    with href full show ?thesis
      using Cons.IH [OF rest] by (simp add: Let_def)
  qed
qed

lemma images_loop_returns:
  "list_all (\<lambda>a. resolve_attr url ''src'' a \<noteq> None) xs \<Longrightarrow> \<exists>ims. images_loop url xs acc = Inr ims"
proof (induction xs arbitrary: acc)
  case Nil
  show ?case by simp
next
  case (Cons a rest)
  from Cons.prems obtain src full where src: "tag_item a ''src'' = Inr src"
    and full: "urljoin url src = Inr full"
    by (auto simp: resolve_attr_def split: sum.splits)
  from Cons.prems have rest: "list_all (\<lambda>a. resolve_attr url ''src'' a \<noteq> None) rest" by simp
  from src full show ?case
    using Cons.IH [OF rest] by (simp add: Let_def)
qed

lemma map_filter_all_Some:
  "list_all (\<lambda>x. f x \<noteq> None) xs \<Longrightarrow> length (List.map_filter f xs) = length xs"
  by (induction xs) (auto simp: List.map_filter_simps)

lemma find_all_Tag:
  "find_all m (Tag n a cs) = concat (map (\<lambda>c. filter m (c # descendants c)) cs)"
  by (simp add: find_all_def filter_concat comp_def)

lemma concat_replicate_single: "concat (replicate k [x]) = replicate k x"
  by (induction k) simp_all

lemma concat_replicate_Nil: "concat (replicate k []) = []"
  by (induction k) simp_all

lemma list_all_replicate: "P x \<Longrightarrow> list_all P (replicate k x)"
  by (induction k) simp_all

subsection \<open>The example pages\<close>

lemma example_scrape:
  "scrape_website ''https://example.com'' (Inr example_response) example_page
     ''2024-01-01T00:00:00'' = Inr example_data"
  by code_simp

lemma bulk_paragraphs: "find_all (named [''p'']) bulk_page = replicate 200 (Tag ''p'' [] [NavigableString ''text''])"
  by (simp add: bulk_page_def find_all_Tag concat_replicate_single concat_replicate_Nil)

lemma bulk_anchors: "anchor_tags bulk_page = replicate 150 (Tag ''a'' [(''href'', ''/x'')] [NavigableString ''link''])"
  by (simp add: bulk_page_def find_all_Tag concat_replicate_single concat_replicate_Nil has_attr_def)

lemma bulk_imgs: "img_tags bulk_page = []"
  by (simp add: bulk_page_def find_all_Tag concat_replicate_single concat_replicate_Nil has_attr_def)

lemma example_anchor_valid:
  "valid_target ''https://example.com'' ''href'' (Tag ''a'' [(''href'', ''/x'')] [NavigableString ''link''])
     = Some ''https://example.com/x''"
  by code_simp

lemma ok_response_ok: "raise_for_status (ok_response body) = Inr ()"
  by (simp add: raise_for_status_def ok_response_def)

lemma spec_rows_no_cells:
  "list_all (\<lambda>row. find_all (named [''td'', ''th'']) row = []) (find_all (named [''tr'']) t)
     \<Longrightarrow> spec_rows t = []"
  by (simp add: spec_rows_def list_all_iff filter_empty_conv)

lemma crowded_anchors:
  "anchor_tags crowded_page =
     Tag ''a'' [(''href'', ''mailto:me@example.com'')] [NavigableString ''mail'']
     # replicate 150 (Tag ''a'' [(''href'', ''/x'')] [NavigableString ''link''])"
  by (simp add: crowded_page_def find_all_Tag concat_replicate_single has_attr_def)

lemma crowded_imgs: "img_tags crowded_page = []"
  by (simp add: crowded_page_def find_all_Tag concat_replicate_Nil has_attr_def)

lemma mailto_anchor_invalid:
  "valid_target ''https://example.com'' ''href''
     (Tag ''a'' [(''href'', ''mailto:me@example.com'')] [NavigableString ''mail'']) = None"
  by code_simp

lemma mailto_anchor_resolves:
  "resolve_attr ''https://example.com'' ''href''
     (Tag ''a'' [(''href'', ''mailto:me@example.com'')] [NavigableString ''mail''])
     = Some ''mailto:me@example.com''"
  by code_simp

lemma map_filter_replicate:
  "f x = Some y \<Longrightarrow> List.map_filter f (replicate k x) = replicate k y"
  by (induction k) (simp_all add: List.map_filter_simps)

lemma map_filter_example_anchors:
  "List.map_filter (valid_target ''https://example.com'' ''href'')
     (replicate k (Tag ''a'' [(''href'', ''/x'')] [NavigableString ''link'']))
   = replicate k ''https://example.com/x''"
  by (rule map_filter_replicate) (rule example_anchor_valid)

lemma filter_replicate_True: "P x \<Longrightarrow> filter P (replicate k x) = replicate k x"
  by (induction k) simp_all

lemma crowded_scrape:
  "\<exists>d. scrape_website ''https://example.com'' (Inr (ok_response crowded_markup)) crowded_page
         ''2024-01-01T00:00:00'' = Inr d"
proof (rule scrape_website_returns [OF ok_response_ok])
  have r: "resolve_attr ''https://example.com'' ''href''
             (Tag ''a'' [(''href'', ''/x'')] [NavigableString ''link'']) \<noteq> None"
    using example_anchor_valid by (auto simp: valid_target_def split: option.splits)
  have t: "take 100 (anchor_tags crowded_page)
          = Tag ''a'' [(''href'', ''mailto:me@example.com'')] [NavigableString ''mail'']
            # replicate 99 (Tag ''a'' [(''href'', ''/x'')] [NavigableString ''link''])"
    by (simp add: crowded_anchors take_Cons')
  have m: "resolve_attr ''https://example.com'' ''href''
             (Tag ''a'' [(''href'', ''mailto:me@example.com'')] [NavigableString ''mail'']) \<noteq> None"
    by (simp add: mailto_anchor_resolves)
  have "list_all (\<lambda>a. resolve_attr ''https://example.com'' ''href'' a \<noteq> None)
          (replicate 99 (Tag ''a'' [(''href'', ''/x'')] [NavigableString ''link'']))"
    by (rule list_all_replicate) (rule r)
  with m have "list_all (\<lambda>a. resolve_attr ''https://example.com'' ''href'' a \<noteq> None)
          (take 100 (anchor_tags crowded_page))"
    unfolding t by simp
  then obtain ls where "links_loop ''https://example.com'' (take 100 (anchor_tags crowded_page)) []
                          = Inr ls"
    using links_loop_returns by blast
  then show "links_loop ''https://example.com'' (take 100 (anchor_tags crowded_page)) []
               = Inr (projr (links_loop ''https://example.com'' (take 100 (anchor_tags crowded_page)) []))"
    by simp
  show "images_loop ''https://example.com'' (take 50 (img_tags crowded_page)) [] = Inr []"
    by (simp add: crowded_imgs)
qed

section \<open>URLs with a scheme and a host\<close>

lemma scheme_char_plain:
  assumes "c \<in> set scheme_chars"
  shows "\<not> unsafe_url_byte c" and "c \<noteq> CHR '':''" and "\<not> c0_control_or_space c"
  using assms
  by (auto simp: scheme_chars_def ascii_lower_def ascii_upper_def unsafe_url_byte_def
                 c0_control_or_space_def)

lemma urlsplit_schemed_hosted:
  assumes s1: "sch \<noteq> []" and s2: "hd sch \<in> set (ascii_lower @ ascii_upper)"
    and s3: "list_all (\<lambda>c. c \<in> set scheme_chars) sch"
    and h1: "list_all (\<lambda>c. c \<notin> set ''/?#[]'' \<and> \<not> unsafe_url_byte c) host"
    and r: "rest = [] \<or> hd rest \<in> set ''/?#''"
  shows "\<exists>p q f. urlsplit (sch @ ''://'' @ host @ rest) scheme0
                  = Inr (map lower_char sch, host, p, q, f)"
proof -
  let ?rest = "filter (\<lambda>c. \<not> unsafe_url_byte c) rest"
  let ?u = "sch @ ''://'' @ host @ ?rest"
  from s3 have plain: "\<forall>c\<in>set sch. \<not> unsafe_url_byte c \<and> c \<noteq> CHR '':'' \<and> \<not> c0_control_or_space c"
    using scheme_char_plain by (auto simp: list_all_iff)
  from s1 plain have "\<not> c0_control_or_space (hd sch)" by simp
  with s1 have strip: "dropWhile c0_control_or_space (sch @ ''://'' @ host @ rest)
                        = sch @ ''://'' @ host @ rest"
    by (cases sch) simp_all
  have fsch: "filter (\<lambda>c. \<not> unsafe_url_byte c) sch = sch"
    using plain by (simp add: filter_id_conv)
  have fhost: "filter (\<lambda>c. \<not> unsafe_url_byte c) host = host"
    using h1 by (simp add: filter_id_conv list_all_iff)
  have u: "filter (\<lambda>c. \<not> unsafe_url_byte c) (dropWhile c0_control_or_space (sch @ ''://'' @ host @ rest))
            = ?u"
  proof -
    have "\<not> unsafe_url_byte CHR '':''" and "\<not> unsafe_url_byte CHR ''/''"
      by (simp_all add: unsafe_url_byte_def)
    then show ?thesis unfolding strip by (simp add: fsch fhost)
  qed
  from r have r': "?rest = [] \<or> hd ?rest \<in> set ''/?#''"
    by (cases rest) (auto simp: unsafe_url_byte_def)
  have pre: "takeWhile (\<lambda>c. c \<noteq> CHR '':'') ?u = sch"
    using plain by (simp add: takeWhile_append)
  have post: "dropWhile (\<lambda>c. c \<noteq> CHR '':'') ?u = ''://'' @ host @ ?rest"
    using plain by (simp add: dropWhile_append)
  have hdu: "hd ?u = hd sch" using s1 by simp
  have sn: "splitnetloc (''//'' @ host @ ?rest) = (host, ?rest)"
    using h1 r' by (cases ?rest) (auto simp: splitnetloc_def takeWhile_append dropWhile_append list_all_iff)
  have br: "CHR ''['' \<notin> set host" "CHR '']'' \<notin> set host"
    using h1 by (auto simp: list_all_iff)
  obtain p q f where pqf: "split_fragment_query ?rest = (p, q, f)"
    by (cases "split_fragment_query ?rest") auto
  have "urlsplit (sch @ ''://'' @ host @ rest) scheme0 = Inr (map lower_char sch, host, p, q, f)"
    unfolding urlsplit_def u Let_def pre post hdu
    using s1 s2 s3 br pqf sn by simp
  then show ?thesis by blast
qed

lemma is_valid_url_schemed_hosted:
  assumes "sch \<noteq> []" and "hd sch \<in> set (ascii_lower @ ascii_upper)"
    and "list_all (\<lambda>c. c \<in> set scheme_chars) sch"
    and "host \<noteq> []"
    and "list_all (\<lambda>c. c \<notin> set ''/?#[]'' \<and> \<not> unsafe_url_byte c) host"
    and "rest = [] \<or> hd rest \<in> set ''/?#''"
  shows "is_valid_url (sch @ ''://'' @ host @ rest)"
proof -
  from urlsplit_schemed_hosted [OF assms(1,2,3,5,6)]
  obtain p q f where "urlsplit (sch @ ''://'' @ host @ rest) [] = Inr (map lower_char sch, host, p, q, f)"
    by blast
  with assms(1,4) show ?thesis
    by (simp add: is_valid_url_def urlparse_def Let_def split: prod.splits)
qed

section \<open>The claims\<close>

text \<open>
  Claim C1, as the code has it. The tables of a returned document are the entries of those
  among the first 10 \<^verbatim>\<open>table\<close> elements that have a row with a cell, in document order. The
  headers of an entry are the normalized texts of all \<^verbatim>\<open>th\<close> cells of the table, and its rows
  are, for each \<^verbatim>\<open>tr\<close> of the table, the normalized texts of its \<^verbatim>\<open>td\<close> and \<^verbatim>\<open>th\<close> cells, rows
  without a cell left out. A table whose rows all have no cell has no row and so no entry.
  A table of one row of two \<^verbatim>\<open>th\<close> and one row of two \<^verbatim>\<open>td\<close> has the headers \<open>h1\<close>, \<open>h2\<close> and two
  rows: the header row, which is a row as well, and the data row.
\<close>

theorem tables_extracted:
  assumes "scrape_website url got soup now = Inr d"
  shows "tables d = map (\<lambda>t. \<lparr>headers = spec_headers t, rows = spec_rows t\<rparr>)
                      (filter (\<lambda>t. spec_rows t \<noteq> [])
                         (take 10 (find_all (named [''table'']) soup)))
       \<and> (\<forall>t. list_all (\<lambda>row. find_all (named [''td'', ''th'']) row = [])
                  (find_all (named [''tr'']) t) \<longrightarrow> spec_rows t = [])
       \<and> (list_all (\<lambda>t. list_all (\<lambda>row. find_all (named [''td'', ''th'']) row = [])
                          (find_all (named [''tr'']) t))
              (take 10 (find_all (named [''table'']) soup)) \<longrightarrow> tables d = [])
       \<and> spec_headers example_table = [''h1'', ''h2'']
       \<and> spec_rows example_table = [[''h1'', ''h2''], [''c1'', ''c2'']]"
proof (intro conjI allI impI)
  from assms obtain r where "tables d = tables_loop (take 10 (find_all (named [''table'']) soup)) []"
    by (rule scrape_website_Inr)
  then show "tables d = map (\<lambda>t. \<lparr>headers = spec_headers t, rows = spec_rows t\<rparr>)
                      (filter (\<lambda>t. spec_rows t \<noteq> [])
                         (take 10 (find_all (named [''table'']) soup)))"
    by (simp add: tables_loop_filter)
  then have ts: "tables d = map (\<lambda>t. \<lparr>headers = spec_headers t, rows = spec_rows t\<rparr>)
                      (filter (\<lambda>t. spec_rows t \<noteq> [])
                         (take 10 (find_all (named [''table'']) soup)))"
    by (simp add: tables_loop_filter)
  show "spec_headers example_table = [''h1'', ''h2'']" by code_simp
  show "spec_rows example_table = [[''h1'', ''h2''], [''c1'', ''c2'']]" by code_simp
  assume "list_all (\<lambda>t. list_all (\<lambda>row. find_all (named [''td'', ''th'']) row = [])
                          (find_all (named [''tr'']) t))
              (take 10 (find_all (named [''table'']) soup))"
  then have "\<forall>t\<in>set (take 10 (find_all (named [''table'']) soup)). spec_rows t = []"
    using spec_rows_no_cells by (auto simp: list_all_iff)
  then have "filter (\<lambda>t. spec_rows t \<noteq> []) (take 10 (find_all (named [''table'']) soup)) = []"
    by (simp add: filter_empty_conv)
  with ts show "tables d = []" by simp
next
  fix t
  assume "list_all (\<lambda>row. find_all (named [''td'', ''th'']) row = []) (find_all (named [''tr'']) t)"
  then show "spec_rows t = []" by (rule spec_rows_no_cells)
qed

theorem tables_extracted_witness:
  "scrape_website ''https://example.com'' (Inr example_response) example_page
     ''2024-01-01T00:00:00'' = Inr example_data
   \<and> tables example_data = map (\<lambda>t. \<lparr>headers = spec_headers t, rows = spec_rows t\<rparr>)
                      (filter (\<lambda>t. spec_rows t \<noteq> [])
                         (take 10 (find_all (named [''table'']) example_page)))
   \<and> tables example_data = [\<lparr>headers = [''h1'', ''h2''],
                               rows = [[''h1'', ''h2''], [''c1'', ''c2'']]\<rparr>]
   \<and> list_all (\<lambda>t. list_all (\<lambda>row. find_all (named [''td'', ''th'']) row = [])
                      (find_all (named [''tr'']) t))
        (take 10 (find_all (named [''table'']) empty_table_page))
   \<and> spec_rows (Tag ''table'' [] [Tag ''tr'' [] []]) = []
   \<and> (\<exists>d. scrape_website ''https://example.com'' (Inr (ok_response empty_table_markup)) empty_table_page
             ''2024-01-01T00:00:00'' = Inr d
          \<and> tables d = [])"
proof -
  note on_example = tables_extracted [OF example_scrape]
  have ex: "tables example_data = [\<lparr>headers = [''h1'', ''h2''],
                               rows = [[''h1'', ''h2''], [''c1'', ''c2'']]\<rparr>]"
    by (simp add: example_data_def)
  have e: "list_all (\<lambda>t. list_all (\<lambda>row. find_all (named [''td'', ''th'']) row = [])
                      (find_all (named [''tr'']) t))
        (take 10 (find_all (named [''table'']) empty_table_page))"
    by code_simp
  have r: "list_all (\<lambda>row. find_all (named [''td'', ''th'']) row = [])
             (find_all (named [''tr'']) (Tag ''table'' [] [Tag ''tr'' [] []]))"
    by code_simp
  from on_example r have n: "spec_rows (Tag ''table'' [] [Tag ''tr'' [] []]) = []"
    by blast
  have "\<exists>d. scrape_website ''https://example.com'' (Inr (ok_response empty_table_markup)) empty_table_page
             ''2024-01-01T00:00:00'' = Inr d"
    by (rule scrape_website_returns [OF ok_response_ok])
       (simp_all add: empty_table_page_def find_all_Tag has_attr_def)
  then obtain d where d: "scrape_website ''https://example.com'' (Inr (ok_response empty_table_markup))
             empty_table_page ''2024-01-01T00:00:00'' = Inr d" ..
  from tables_extracted [OF d] e have "tables d = []" by blast
  with d on_example ex e n example_scrape show ?thesis by blast
qed

text \<open>
  Claim C1, as stated, fails: for the table of one header row and one data row the
  entry has two rows, not one, since the \<^verbatim>\<open>th\<close> cells of the header row are cells of a row too.
\<close>

theorem table_rows_counterexample:
  "\<exists>d. scrape_website ''https://example.com'' (Inr (ok_response table_markup)) table_page
          ''2024-01-01T00:00:00'' = Inr d
       \<and> tables d = [\<lparr>headers = [''h1'', ''h2''],
                       rows = [[''h1'', ''h2''], [''c1'', ''c2'']]\<rparr>]
       \<and> length (rows (hd (tables d))) \<noteq> 1"
proof -
  have "case scrape_website ''https://example.com'' (Inr (ok_response table_markup)) table_page
          ''2024-01-01T00:00:00'' of
          Inl e \<Rightarrow> False
        | Inr d \<Rightarrow> tables d = [\<lparr>headers = [''h1'', ''h2''],
                                 rows = [[''h1'', ''h2''], [''c1'', ''c2'']]\<rparr>]"
    by code_simp
  then show ?thesis by (auto split: sum.splits)
qed

text \<open>
  Claim C2, as the code has it. A response with a status from 400 to 599 makes
  \<^verbatim>\<open>scrape_website\<close> raise an \<^verbatim>\<open>Exception\<close>, and no document is returned; its message is
  \<^verbatim>\<open>Failed to fetch URL: \<close> followed by the text of the \<^verbatim>\<open>HTTPError\<close>, which starts with the
  status code. An exception of \<^verbatim>\<open>requests.get\<close> itself (connection, timeout) makes it raise
  an \<^verbatim>\<open>Exception\<close> with the same prefix followed by the cause: the two failures are of
  one kind and differ in the message only.
\<close>

theorem bad_status_fails:
  "(400 \<le> status_code resp \<and> status_code resp < 600 \<longrightarrow>
      scrape_website url (Inr resp) soup now =
        Inl (Exception (''Failed to fetch URL: '' @ str_nat (status_code resp)
               @ (if status_code resp < 500 then '' Client Error: '' else '' Server Error: '')
               @ reason resp @ '' for url: '' @ response_url resp)))
   \<and> (is_RequestException e \<longrightarrow>
        scrape_website url (Inl e) soup now =
          Inl (Exception (''Failed to fetch URL: '' @ str_exn e)))"
  by (auto simp: scrape_website_def scrape_response_def raise_for_status_def)

theorem bad_status_fails_witness:
  "400 \<le> status_code not_found_response \<and> status_code not_found_response < 600
   \<and> scrape_website ''https://example.com/missing'' (Inr not_found_response) bare_page
        ''2024-01-01T00:00:00'' =
       Inl (Exception ''Failed to fetch URL: 404 Client Error: Not Found for url: https://example.com/missing'')
   \<and> is_RequestException (Timeout ''timed out'')
   \<and> scrape_website ''https://example.com/missing'' (Inl (Timeout ''timed out'')) bare_page
        ''2024-01-01T00:00:00'' = Inl (Exception ''Failed to fetch URL: timed out'')"
proof -
  have s: "str_nat 404 = ''404''" by code_simp
  have h: "400 \<le> status_code not_found_response \<and> status_code not_found_response < 600"
    by (simp add: not_found_response_def)
  from bad_status_fails [of not_found_response "''https://example.com/missing''" bare_page
         "''2024-01-01T00:00:00''" "Timeout ''timed out''"] h
  show ?thesis by (simp add: not_found_response_def s)
qed

text \<open>
  Claim C2, as stated, fails: 300 is not a success status, and a response with that
  status is parsed like any other and yields a document.
\<close>

theorem redirect_status_counterexample:
  "\<not> (200 \<le> status_code redirect_response \<and> status_code redirect_response < 300)
   \<and> (\<exists>d. scrape_website ''https://example.com'' (Inr redirect_response) bare_page
             ''2024-01-01T00:00:00'' = Inr d
          \<and> md_status_code (metadata d) = 300)"
proof -
  have "case scrape_website ''https://example.com'' (Inr redirect_response) bare_page
          ''2024-01-01T00:00:00'' of
          Inl e \<Rightarrow> False
        | Inr d \<Rightarrow> md_status_code (metadata d) = 300"
    by code_simp
  then show ?thesis by (auto simp: redirect_response_def split: sum.splits)
qed

text \<open>
  Claim C3. The extraction truncates at its limits and does not fail because of them.
  Every returned document has \<open>min 50 n\<close> paragraphs for a page of \<open>n\<close> paragraph elements,
  so at most 50 and exactly 50 for 200 of them, and at most 100 links; when the first 100
  anchors with an \<^verbatim>\<open>href\<close> all resolve to valid URLs it has \<open>min 100 m\<close> links for a page of
  \<open>m\<close> such anchors, so exactly 100 for 150 of them. A document is returned whenever the
  status is not an error status and the \<^verbatim>\<open>href\<close> of the first 100 anchors and the \<^verbatim>\<open>src\<close> of
  the first 50 images can be resolved: nothing beyond the limits, and no number of
  elements, makes the extraction fail.
\<close>

theorem bounded_extraction:
  "(\<forall>d. scrape_website url got soup now = Inr d \<longrightarrow>
      length (paragraphs d) = min 50 (length (find_all (named [''p'']) soup))
      \<and> length (paragraphs d) \<le> 50
      \<and> length (links d) \<le> 100
      \<and> (list_all (\<lambda>a. valid_target url ''href'' a \<noteq> None) (take 100 (anchor_tags soup)) \<longrightarrow>
           length (links d) = min 100 (length (anchor_tags soup))))
   \<and> (\<not> (400 \<le> status_code resp \<and> status_code resp < 600)
        \<and> list_all (\<lambda>a. resolve_attr url ''href'' a \<noteq> None) (take 100 (anchor_tags soup))
        \<and> list_all (\<lambda>i. resolve_attr url ''src'' i \<noteq> None) (take 50 (img_tags soup)) \<longrightarrow>
       (\<exists>d. scrape_website url (Inr resp) soup now = Inr d))"
proof (intro conjI allI impI)
  fix d
  assume ok: "scrape_website url got soup now = Inr d"
  then obtain r where ls: "links_loop url (take 100 (anchor_tags soup)) [] = Inr (links d)"
    and ps: "paragraphs d = map (\<lambda>p. clean_text (Some (get_text p)))
                              (take 50 (find_all (named [''p'']) soup))"
    by (rule scrape_website_Inr)
  from ps show "length (paragraphs d) = min 50 (length (find_all (named [''p'']) soup))"
    by (simp add: min.commute)
  from ps show "length (paragraphs d) \<le> 50" by simp
  from links_loop_length [OF ls] show "length (links d) \<le> 100" by simp
  assume "list_all (\<lambda>a. valid_target url ''href'' a \<noteq> None) (take 100 (anchor_tags soup))"
  then have "length (List.map_filter (valid_target url ''href'') (take 100 (anchor_tags soup)))
             = length (take 100 (anchor_tags soup))"
    by (rule map_filter_all_Some)
  moreover have "length (map link_url (links d))
             = length (List.map_filter (valid_target url ''href'') (take 100 (anchor_tags soup)))"
    using links_loop_urls [OF ls] by simp
  ultimately show "length (links d) = min 100 (length (anchor_tags soup))"
    by (simp add: min.commute)
next
  assume h: "\<not> (400 \<le> status_code resp \<and> status_code resp < 600)
        \<and> list_all (\<lambda>a. resolve_attr url ''href'' a \<noteq> None) (take 100 (anchor_tags soup))
        \<and> list_all (\<lambda>i. resolve_attr url ''src'' i \<noteq> None) (take 50 (img_tags soup))"
  from h obtain ls where ls: "links_loop url (take 100 (anchor_tags soup)) [] = Inr ls"
    using links_loop_returns by blast
  from h obtain ims where ims: "images_loop url (take 50 (img_tags soup)) [] = Inr ims"
    using images_loop_returns by blast
  from h have "raise_for_status resp = Inr ()"
    by (simp add: raise_for_status_ok)
  then show "\<exists>d. scrape_website url (Inr resp) soup now = Inr d"
    using ls ims by (rule scrape_website_returns)
qed

theorem bounded_extraction_witness:
  "status_code (ok_response bulk_markup) = 200
   \<and> length (find_all (named [''p'']) bulk_page) = 200
   \<and> length (anchor_tags bulk_page) = 150
   \<and> list_all (\<lambda>a. valid_target ''https://example.com'' ''href'' a \<noteq> None) (anchor_tags bulk_page)
   \<and> (\<exists>d. scrape_website ''https://example.com'' (Inr (ok_response bulk_markup)) bulk_page
             ''2024-01-01T00:00:00'' = Inr d
          \<and> length (paragraphs d) = 50 \<and> length (links d) = 100)"
proof -
  let ?u = "''https://example.com''"
  have v: "list_all (\<lambda>a. valid_target ?u ''href'' a \<noteq> None) (anchor_tags bulk_page)"
    by (simp add: bulk_anchors list_all_replicate example_anchor_valid)
  then have v100: "list_all (\<lambda>a. valid_target ?u ''href'' a \<noteq> None) (take 100 (anchor_tags bulk_page))"
    by (simp add: bulk_anchors list_all_replicate example_anchor_valid)
  have r100: "list_all (\<lambda>a. resolve_attr ?u ''href'' a \<noteq> None) (take 100 (anchor_tags bulk_page))"
    using v100 by (auto simp: list_all_iff valid_target_def split: option.splits)
  have i50: "list_all (\<lambda>i. resolve_attr ?u ''src'' i \<noteq> None) (take 50 (img_tags bulk_page))"
    by (simp add: bulk_imgs)
  note inst = bounded_extraction [of ?u "Inr (ok_response bulk_markup)" bulk_page "''2024-01-01T00:00:00''" "ok_response bulk_markup"]
  have st: "\<not> (400 \<le> status_code (ok_response bulk_markup)
               \<and> status_code (ok_response bulk_markup) < 600)"
    by (simp add: ok_response_def)
  from inst st r100 i50
  obtain d where d: "scrape_website ?u (Inr (ok_response bulk_markup)) bulk_page ''2024-01-01T00:00:00'' = Inr d"
    by blast
  from inst d v100 have "length (paragraphs d) = 50 \<and> length (links d) = 100"
    by (simp add: bulk_paragraphs bulk_anchors)
  with d v show ?thesis by (auto simp: bulk_paragraphs bulk_anchors ok_response_def)
qed

text \<open>
  Claim C4. \<^verbatim>\<open>is_valid_url\<close> holds exactly when \<^verbatim>\<open>urlparse\<close> returns a result whose scheme and
  network location are both non-empty; when \<^verbatim>\<open>urlparse\<close> raises, the answer is \<^verbatim>\<open>False\<close> and
  nothing is raised. It is \<^verbatim>\<open>False\<close> for \<^verbatim>\<open>not a url\<close> and for \<^verbatim>\<open>//onlypath\<close>, and \<^verbatim>\<open>True\<close> for
  \<^verbatim>\<open>https://example.com\<close> and for every string made of a scheme (a letter followed by
  scheme characters), \<^verbatim>\<open>://\<close>, a non-empty host without \<^verbatim>\<open>/?#[]\<close>, tab or line break, and
  a rest that is empty or starts with \<^verbatim>\<open>/\<close>, \<^verbatim>\<open>?\<close> or \<^verbatim>\<open>#\<close>.
\<close>

theorem is_valid_url_iff:
  "is_valid_url candidate
     = (\<exists>r. urlparse candidate [] = Inr r \<and> scheme r \<noteq> [] \<and> netloc r \<noteq> [])
   \<and> (\<forall>e. urlparse candidate [] = Inl e \<longrightarrow> is_valid_url candidate = False)
   \<and> is_valid_url ''not a url'' = False
   \<and> is_valid_url ''//onlypath'' = False
   \<and> is_valid_url ''https://example.com'' = True
   \<and> (sch \<noteq> [] \<and> hd sch \<in> set (ascii_lower @ ascii_upper)
        \<and> list_all (\<lambda>c. c \<in> set scheme_chars) sch
        \<and> host \<noteq> [] \<and> list_all (\<lambda>c. c \<notin> set ''/?#[]'' \<and> \<not> unsafe_url_byte c) host
        \<and> (rest = [] \<or> hd rest \<in> set ''/?#'') \<longrightarrow>
       is_valid_url (sch @ ''://'' @ host @ rest))"
proof (intro conjI allI impI)
  show "is_valid_url candidate
     = (\<exists>r. urlparse candidate [] = Inr r \<and> scheme r \<noteq> [] \<and> netloc r \<noteq> [])"
    by (cases "urlparse candidate []") (simp_all add: is_valid_url_def)
  show "is_valid_url ''not a url'' = False" by code_simp
  show "is_valid_url ''//onlypath'' = False" by code_simp
  show "is_valid_url ''https://example.com'' = True" by code_simp
next
  fix e
  assume "urlparse candidate [] = Inl e"
  then show "is_valid_url candidate = False" by (simp add: is_valid_url_def)
next
  assume "sch \<noteq> [] \<and> hd sch \<in> set (ascii_lower @ ascii_upper)
        \<and> list_all (\<lambda>c. c \<in> set scheme_chars) sch
        \<and> host \<noteq> [] \<and> list_all (\<lambda>c. c \<notin> set ''/?#[]'' \<and> \<not> unsafe_url_byte c) host
        \<and> (rest = [] \<or> hd rest \<in> set ''/?#'')"
  then show "is_valid_url (sch @ ''://'' @ host @ rest)"
    by (intro is_valid_url_schemed_hosted) blast+
qed

theorem is_valid_url_iff_witness:
  "urlparse ''http://[::1/x'' [] = Inl (ValueError ''Invalid IPv6 URL'')
   \<and> is_valid_url ''http://[::1/x'' = False
   \<and> (\<exists>r. urlparse ''https://example.com'' [] = Inr r \<and> scheme r \<noteq> [] \<and> netloc r \<noteq> [])
   \<and> hd ''ftp'' \<in> set (ascii_lower @ ascii_upper)
   \<and> list_all (\<lambda>c. c \<in> set scheme_chars) ''ftp''
   \<and> list_all (\<lambda>c. c \<notin> set ''/?#[]'' \<and> \<not> unsafe_url_byte c) ''files.example.org:21''
   \<and> is_valid_url ''ftp://files.example.org:21/pub?x#y''"
proof -
  have p: "urlparse ''http://[::1/x'' [] = Inl (ValueError ''Invalid IPv6 URL'')"
    by code_simp
  from is_valid_url_iff [of "''http://[::1/x''"] p
  have 1: "is_valid_url ''http://[::1/x'' = False" by blast
  from is_valid_url_iff [of "''https://example.com''"]
  have 2: "\<exists>r. urlparse ''https://example.com'' [] = Inr r \<and> scheme r \<noteq> [] \<and> netloc r \<noteq> []"
    by blast
  have h1: "hd ''ftp'' \<in> set (ascii_lower @ ascii_upper)" by code_simp
  have h2: "list_all (\<lambda>c. c \<in> set scheme_chars) ''ftp''" by code_simp
  have h3: "list_all (\<lambda>c. c \<notin> set ''/?#[]'' \<and> \<not> unsafe_url_byte c) ''files.example.org:21''"
    by code_simp
  have h4: "''/pub?x#y'' = [] \<or> hd ''/pub?x#y'' \<in> set ''/?#''" by simp
  from is_valid_url_iff [of _ "''ftp''" "''files.example.org:21''" "''/pub?x#y''"] h1 h2 h3 h4
  have "is_valid_url (''ftp'' @ ''://'' @ ''files.example.org:21'' @ ''/pub?x#y'')" by blast
  then have 3: "is_valid_url ''ftp://files.example.org:21/pub?x#y''" by simp
  from p 1 2 h1 h2 h3 3 show ?thesis by blast
qed

text \<open>
  Claim C5. For every link of a returned document, both its URL and the page's URL
  parse, and \<open>is_external\<close> holds exactly when their network locations differ. On the
  example page, fetched from \<^verbatim>\<open>https://example.com\<close>, the link to
  \<^verbatim>\<open>https://example.com/y\<close> is internal and the link to \<^verbatim>\<open>https://other.org/x\<close> is external.
\<close>

theorem external_classification:
  assumes "scrape_website url got soup now = Inr d"
  shows "(\<forall>l\<in>set (links d). \<exists>r1 r2. urlparse (link_url l) [] = Inr r1 \<and> urlparse url [] = Inr r2
             \<and> is_external l = (netloc r1 \<noteq> netloc r2))
       \<and> scrape_website ''https://example.com'' (Inr example_response) example_page
            ''2024-01-01T00:00:00'' = Inr example_data
       \<and> map (\<lambda>l. (link_url l, is_external l)) (links example_data)
           = [(''https://example.com/y'', False), (''https://other.org/x'', True)]"
proof (intro conjI ballI)
  fix l
  assume l: "l \<in> set (links d)"
  from assms obtain r where "links_loop url (take 100 (anchor_tags soup)) [] = Inr (links d)"
    by (rule scrape_website_Inr)
  then have "list_all (external_ok url) (links d)" by (rule links_loop_external)
  with l have "external_ok url l" by (simp add: list_all_iff)
  then show "\<exists>r1 r2. urlparse (link_url l) [] = Inr r1 \<and> urlparse url [] = Inr r2
             \<and> is_external l = (netloc r1 \<noteq> netloc r2)"
    by (auto simp: external_ok_def split: sum.splits)
next
  show "scrape_website ''https://example.com'' (Inr example_response) example_page
            ''2024-01-01T00:00:00'' = Inr example_data"
    by (rule example_scrape)
  show "map (\<lambda>l. (link_url l, is_external l)) (links example_data)
           = [(''https://example.com/y'', False), (''https://other.org/x'', True)]"
    by (simp add: example_data_def)
qed

theorem external_classification_witness:
  "scrape_website ''https://example.com'' (Inr example_response) example_page
     ''2024-01-01T00:00:00'' = Inr example_data
   \<and> links example_data =
       [\<lparr>link_text = ''link'', link_url = ''https://example.com/y'', is_external = False\<rparr>,
        \<lparr>link_text = ''[No Text]'', link_url = ''https://other.org/x'', is_external = True\<rparr>]
   \<and> (\<exists>r1 r2. urlparse ''https://example.com/y'' [] = Inr r1
          \<and> urlparse ''https://example.com'' [] = Inr r2 \<and> netloc r1 = netloc r2)
   \<and> (\<exists>r1 r2. urlparse ''https://other.org/x'' [] = Inr r1
          \<and> urlparse ''https://example.com'' [] = Inr r2 \<and> netloc r1 \<noteq> netloc r2)"
proof -
  have ls: "links example_data =
       [\<lparr>link_text = ''link'', link_url = ''https://example.com/y'', is_external = False\<rparr>,
        \<lparr>link_text = ''[No Text]'', link_url = ''https://other.org/x'', is_external = True\<rparr>]"
    by (simp add: example_data_def)
  from external_classification [OF example_scrape]
  have "\<forall>l\<in>set (links example_data). \<exists>r1 r2. urlparse (link_url l) [] = Inr r1
          \<and> urlparse ''https://example.com'' [] = Inr r2
          \<and> is_external l = (netloc r1 \<noteq> netloc r2)"
    by blast
  then have "(\<exists>r1 r2. urlparse ''https://example.com/y'' [] = Inr r1
          \<and> urlparse ''https://example.com'' [] = Inr r2 \<and> netloc r1 = netloc r2)
     \<and> (\<exists>r1 r2. urlparse ''https://other.org/x'' [] = Inr r1
          \<and> urlparse ''https://example.com'' [] = Inr r2 \<and> netloc r1 \<noteq> netloc r2)"
    unfolding ls by simp
  with ls example_scrape show ?thesis by blast
qed

text \<open>
  Claim C6. Every URL in the links and in the images of a returned document passes
  \<^verbatim>\<open>is_valid_url\<close>: it parses to a non-empty scheme and a non-empty network location. The
  URLs of the links are the resolved \<^verbatim>\<open>href\<close>s of the first 100 anchors that pass the
  validation, in order, and the sources of the images are the resolved \<^verbatim>\<open>src\<close>s of the
  first 50 images that pass it: an element whose resolved URL fails is left out.
\<close>

theorem extracted_urls_valid:
  assumes "scrape_website url got soup now = Inr d"
  shows "(\<forall>l\<in>set (links d). is_valid_url (link_url l)
            \<and> (\<exists>r. urlparse (link_url l) [] = Inr r \<and> scheme r \<noteq> [] \<and> netloc r \<noteq> []))
       \<and> (\<forall>i\<in>set (images d). is_valid_url (img_src i)
            \<and> (\<exists>r. urlparse (img_src i) [] = Inr r \<and> scheme r \<noteq> [] \<and> netloc r \<noteq> []))
       \<and> map link_url (links d)
           = List.map_filter (valid_target url ''href'') (take 100 (anchor_tags soup))
       \<and> map img_src (images d)
           = List.map_filter (valid_target url ''src'') (take 50 (img_tags soup))"
proof -
  from assms obtain r where ls: "links_loop url (take 100 (anchor_tags soup)) [] = Inr (links d)"
    and ims: "images_loop url (take 50 (img_tags soup)) [] = Inr (images d)"
    by (rule scrape_website_Inr)
  have parts: "\<And>u. is_valid_url u \<Longrightarrow>
                 \<exists>r. urlparse u [] = Inr r \<and> scheme r \<noteq> [] \<and> netloc r \<noteq> []"
    by (auto simp: is_valid_url_def split: sum.splits)
  have 1: "\<forall>l\<in>set (links d). is_valid_url (link_url l)"
    using links_loop_valid [OF ls] by (simp add: list_all_iff)
  have 2: "\<forall>i\<in>set (images d). is_valid_url (img_src i)"
    using images_loop_valid [OF ims] by (simp add: list_all_iff)
  have 3: "map link_url (links d)
           = List.map_filter (valid_target url ''href'') (take 100 (anchor_tags soup))"
    using links_loop_urls [OF ls] by simp
  have 4: "map img_src (images d)
           = List.map_filter (valid_target url ''src'') (take 50 (img_tags soup))"
    using images_loop_srcs [OF ims] by simp
  from 1 2 3 4 parts show ?thesis by blast
qed

theorem extracted_urls_valid_witness:
  "scrape_website ''https://example.com'' (Inr example_response) example_page
     ''2024-01-01T00:00:00'' = Inr example_data
   \<and> map link_url (links example_data) = [''https://example.com/y'', ''https://other.org/x'']
   \<and> map img_src (images example_data) = [''https://example.com/pic.png'']
   \<and> resolve_attr ''https://example.com'' ''href''
        (Tag ''a'' [(''href'', ''mailto:me@example.com'')] [NavigableString ''mail''])
       = Some ''mailto:me@example.com''
   \<and> is_valid_url ''mailto:me@example.com'' = False
   \<and> is_valid_url ''https://example.com/y'' \<and> is_valid_url ''https://other.org/x''
   \<and> is_valid_url ''https://example.com/pic.png''
   \<and> List.map_filter (valid_target ''https://example.com'' ''href'')
        (take 100 (anchor_tags example_page))
       = [''https://example.com/y'', ''https://other.org/x'']"
proof -
  have ls: "map link_url (links example_data) = [''https://example.com/y'', ''https://other.org/x'']"
    and ims: "map img_src (images example_data) = [''https://example.com/pic.png'']"
    by (simp_all add: example_data_def)
  have m: "resolve_attr ''https://example.com'' ''href''
        (Tag ''a'' [(''href'', ''mailto:me@example.com'')] [NavigableString ''mail''])
       = Some ''mailto:me@example.com''"
    by code_simp
  have n: "is_valid_url ''mailto:me@example.com'' = False" by code_simp
  note inst = extracted_urls_valid [OF example_scrape]
  from inst have "\<forall>l\<in>set (links example_data). is_valid_url (link_url l)"
    and "\<forall>i\<in>set (images example_data). is_valid_url (img_src i)"
    by blast+
  then have "list_all is_valid_url (map link_url (links example_data))"
    and "list_all is_valid_url (map img_src (images example_data))"
    by (simp_all add: list_all_iff)
  then have v: "is_valid_url ''https://example.com/y'' \<and> is_valid_url ''https://other.org/x''
     \<and> is_valid_url ''https://example.com/pic.png''"
    unfolding ls ims by simp
  from inst have f: "List.map_filter (valid_target ''https://example.com'' ''href'')
        (take 100 (anchor_tags example_page))
       = [''https://example.com/y'', ''https://other.org/x'']"
    unfolding ls by simp
  from example_scrape ls ims m n v f show ?thesis by blast
qed

text \<open>
  Claim C7. Text normalization is idempotent: normalizing the result of a normalization
  returns it unchanged, whatever the first argument was (a string or \<^verbatim>\<open>None\<close>). The
  string of two spaces, \<open>a\<close>, two newlines, a space, \<open>b\<close> and two spaces is normalized to
  \<open>a b\<close>.
\<close>

theorem clean_text_idempotent:
  "clean_text (Some (clean_text s)) = clean_text s
   \<and> clean_text (Some ''  a\<newline>\<newline> b  '') = ''a b''"
proof
  show "clean_text (Some (clean_text s)) = clean_text s"
    by (rule clean_text_normalized) (rule normalized_clean_text)
  show "clean_text (Some ''  a\<newline>\<newline> b  '') = ''a b''"
    by (simp add: clean_text_def strip_def isspace_def)
qed

text \<open>
  Claim C8. In a returned document the title is \<^verbatim>\<open>No Title\<close> when the page has no \<^verbatim>\<open>title\<close>
  element, and the description and the keywords are empty when the page has no \<^verbatim>\<open>meta\<close>
  tag of that name. When the element is there, the title is the normalized \<^verbatim>\<open>.string\<close> of
  the first \<^verbatim>\<open>title\<close>, and the description and the keywords are the normalized \<^verbatim>\<open>content\<close>
  of the first such \<^verbatim>\<open>meta\<close> tag. All three are normalized text in every case.
\<close>

theorem metadata_fallbacks:
  assumes "scrape_website url got soup now = Inr d"
  shows "(soup_find (named [''title'']) soup = None \<longrightarrow> md_title (metadata d) = ''No Title'')
       \<and> (soup_find (meta_named ''description'') soup = None \<longrightarrow> md_description (metadata d) = [])
       \<and> (soup_find (meta_named ''keywords'') soup = None \<longrightarrow> md_keywords (metadata d) = [])
       \<and> (\<forall>t. soup_find (named [''title'']) soup = Some t \<longrightarrow>
              md_title (metadata d) = clean_text (tag_string t))
       \<and> (\<forall>m. soup_find (meta_named ''description'') soup = Some m \<longrightarrow>
              md_description (metadata d) = clean_text (Some (get_attr m ''content'' [])))
       \<and> (\<forall>m. soup_find (meta_named ''keywords'') soup = Some m \<longrightarrow>
              md_keywords (metadata d) = clean_text (Some (get_attr m ''content'' [])))
       \<and> normalized (md_title (metadata d))
       \<and> normalized (md_description (metadata d))
       \<and> normalized (md_keywords (metadata d))"
proof -
  from assms obtain r where t: "md_title (metadata d) =
           clean_text (case soup_find (named [''title'']) soup of
                         Some t \<Rightarrow> tag_string t
                       | None \<Rightarrow> Some ''No Title'')"
    and m: "md_description (metadata d) =
           clean_text (Some
             (case soup_find (meta_named ''description'') soup of
                Some meta_tag \<Rightarrow> get_attr meta_tag ''content'' []
              | None \<Rightarrow> []))"
    and k: "md_keywords (metadata d) =
           clean_text (Some
             (case soup_find (meta_named ''keywords'') soup of
                Some keywords_tag \<Rightarrow> get_attr keywords_tag ''content'' []
              | None \<Rightarrow> []))"
    by (rule scrape_website_Inr)
  have placeholder: "clean_text (Some ''No Title'') = ''No Title''" by code_simp
  have empty: "clean_text (Some []) = []" by (simp add: clean_text_def)
  show ?thesis
    unfolding t m k by (simp add: placeholder empty normalized_clean_text)
qed

theorem metadata_fallbacks_witness:
  "soup_find (named [''title'']) bare_page = None
   \<and> soup_find (meta_named ''description'') bare_page = None
   \<and> soup_find (meta_named ''keywords'') bare_page = None
   \<and> (\<exists>d. scrape_website ''https://example.com'' (Inr (ok_response [])) bare_page
             ''2024-01-01T00:00:00'' = Inr d
          \<and> md_title (metadata d) = ''No Title''
          \<and> md_description (metadata d) = []
          \<and> md_keywords (metadata d) = [])
   \<and> soup_find (named [''title'']) example_page = Some (Tag ''title'' [] [NavigableString '' T ''])
   \<and> soup_find (meta_named ''description'') example_page
        = Some (Tag ''meta'' [(''name'', ''description''), (''content'', ''summary'')] [])
   \<and> scrape_website ''https://example.com'' (Inr example_response) example_page
        ''2024-01-01T00:00:00'' = Inr example_data
   \<and> md_title (metadata example_data) = clean_text (Some '' T '')
   \<and> md_description (metadata example_data) = clean_text (Some ''summary'')
   \<and> normalized (md_title (metadata example_data))
   \<and> normalized (md_description (metadata example_data))
   \<and> normalized (md_keywords (metadata example_data))"
proof -
  have b1: "soup_find (named [''title'']) bare_page = None"
    and b2: "soup_find (meta_named ''description'') bare_page = None"
    and b3: "soup_find (meta_named ''keywords'') bare_page = None"
    by (simp_all add: bare_page_def soup_find_def find_all_def)
  have "\<exists>d. scrape_website ''https://example.com'' (Inr (ok_response [])) bare_page
             ''2024-01-01T00:00:00'' = Inr d"
    by (rule scrape_website_returns [OF ok_response_ok])
       (simp_all add: bare_page_def find_all_def)
  then obtain d where d: "scrape_website ''https://example.com'' (Inr (ok_response [])) bare_page
             ''2024-01-01T00:00:00'' = Inr d" ..
  from metadata_fallbacks [OF d] b1 b2 b3
  have bare: "md_title (metadata d) = ''No Title'' \<and> md_description (metadata d) = []
     \<and> md_keywords (metadata d) = []"
    by blast
  have e1: "soup_find (named [''title'']) example_page = Some (Tag ''title'' [] [NavigableString '' T ''])"
    by code_simp
  have e2: "soup_find (meta_named ''description'') example_page
        = Some (Tag ''meta'' [(''name'', ''description''), (''content'', ''summary'')] [])"
    by code_simp
  have g: "get_attr (Tag ''meta'' [(''name'', ''description''), (''content'', ''summary'')] [])
             ''content'' [] = ''summary''"
    by (simp add: get_attr_def)
  note inst = metadata_fallbacks [OF example_scrape]
  from inst e1 have "md_title (metadata example_data)
      = clean_text (tag_string (Tag ''title'' [] [NavigableString '' T '']))"
    by blast
  then have t: "md_title (metadata example_data) = clean_text (Some '' T '')" by simp
  from inst e2 have "md_description (metadata example_data)
      = clean_text (Some (get_attr
          (Tag ''meta'' [(''name'', ''description''), (''content'', ''summary'')] []) ''content'' []))"
    by blast
  then have m: "md_description (metadata example_data) = clean_text (Some ''summary'')"
    by (simp only: g)
  from inst have n: "normalized (md_title (metadata example_data))
     \<and> normalized (md_description (metadata example_data))
     \<and> normalized (md_keywords (metadata example_data))"
    by blast
  from t m n have ex: "md_title (metadata example_data) = clean_text (Some '' T '')
     \<and> md_description (metadata example_data) = clean_text (Some ''summary'')
     \<and> normalized (md_title (metadata example_data))
     \<and> normalized (md_description (metadata example_data))
     \<and> normalized (md_keywords (metadata example_data))"
    by blast
  from b1 b2 b3 d bare e1 e2 example_scrape ex show ?thesis by blast
qed

text \<open>
  Claim C9. The statistics of a returned document are the counts of its sequences: the
  sum of the lengths of the six heading lists, the lengths of the paragraphs, links,
  images and tables, and the number of links with \<open>is_external\<close>. The sequences are what
  the extraction produced, with nothing filtered afterwards: one heading list per level
  \<open>h1\<close> to \<open>h6\<close>, the paragraph texts, and the results of the loops over the anchors, the
  images and the tables.
\<close>

theorem statistics_are_counts:
  assumes "scrape_website url got soup now = Inr d"
  shows "total_headings (statistics d) = sum_list (map (\<lambda>h. length (snd h)) (headings d))
       \<and> total_paragraphs (statistics d) = length (paragraphs d)
       \<and> total_links (statistics d) = length (links d)
       \<and> total_images (statistics d) = length (images d)
       \<and> total_tables (statistics d) = length (tables d)
       \<and> external_links (statistics d) = length (filter is_external (links d))
       \<and> map fst (headings d) = [''h1'', ''h2'', ''h3'', ''h4'', ''h5'', ''h6'']
       \<and> (\<forall>h\<in>set (headings d).
             snd h = map (\<lambda>t. clean_text (Some (get_text t))) (find_all (named [fst h]) soup))
       \<and> paragraphs d = map (\<lambda>p. clean_text (Some (get_text p)))
                           (take 50 (find_all (named [''p'']) soup))
       \<and> links_loop url (take 100 (anchor_tags soup)) [] = Inr (links d)
       \<and> images_loop url (take 50 (img_tags soup)) [] = Inr (images d)
       \<and> tables d = tables_loop (take 10 (find_all (named [''table'']) soup)) []"
proof -
  from assms obtain r where ls: "links_loop url (take 100 (anchor_tags soup)) [] = Inr (links d)"
    and ims: "images_loop url (take 50 (img_tags soup)) [] = Inr (images d)"
    and ps: "paragraphs d = map (\<lambda>p. clean_text (Some (get_text p)))
                              (take 50 (find_all (named [''p'']) soup))"
    and ts: "tables d = tables_loop (take 10 (find_all (named [''table'']) soup)) []"
    and hs: "headings d = map (\<lambda>level. (level, map (\<lambda>h. clean_text (Some (get_text h)))
                                              (find_all (named [level]) soup)))
                         [''h1'', ''h2'', ''h3'', ''h4'', ''h5'', ''h6'']"
    and st: "statistics d =
           \<lparr>total_headings = sum_list (map (\<lambda>h. length (snd h)) (headings d)),
            total_paragraphs = length (paragraphs d),
            total_links = length (links d),
            total_images = length (images d),
            total_tables = length (tables d),
            external_links = length (filter is_external (links d))\<rparr>"
    by (rule scrape_website_Inr)
  have counts: "total_headings (statistics d) = sum_list (map (\<lambda>h. length (snd h)) (headings d))
       \<and> total_paragraphs (statistics d) = length (paragraphs d)
       \<and> total_links (statistics d) = length (links d)
       \<and> total_images (statistics d) = length (images d)
       \<and> total_tables (statistics d) = length (tables d)
       \<and> external_links (statistics d) = length (filter is_external (links d))"
    by (simp add: st)
  have levels: "map fst (headings d) = [''h1'', ''h2'', ''h3'', ''h4'', ''h5'', ''h6'']"
    by (simp add: hs)
  have texts: "\<forall>h\<in>set (headings d).
             snd h = map (\<lambda>t. clean_text (Some (get_text t))) (find_all (named [fst h]) soup)"
    unfolding hs by (simp only: set_map ball_simps fst_conv snd_conv) simp
  from counts levels texts ps ls ims ts show ?thesis by blast
qed

theorem statistics_are_counts_witness:
  "scrape_website ''https://example.com'' (Inr example_response) example_page
     ''2024-01-01T00:00:00'' = Inr example_data
   \<and> total_headings (statistics example_data) = 1
   \<and> sum_list (map (\<lambda>h. length (snd h)) (headings example_data)) = 1
   \<and> total_paragraphs (statistics example_data) = 1 \<and> length (paragraphs example_data) = 1
   \<and> total_links (statistics example_data) = 2 \<and> length (links example_data) = 2
   \<and> total_images (statistics example_data) = 1 \<and> length (images example_data) = 1
   \<and> total_tables (statistics example_data) = 1 \<and> length (tables example_data) = 1
   \<and> external_links (statistics example_data) = 1
   \<and> length (filter is_external (links example_data)) = 1
   \<and> links_loop ''https://example.com'' (take 100 (anchor_tags example_page)) []
        = Inr (links example_data)"
proof -
  have lens: "length (paragraphs example_data) = 1 \<and> length (links example_data) = 2
     \<and> length (images example_data) = 1 \<and> length (tables example_data) = 1
     \<and> length (filter is_external (links example_data)) = 1
     \<and> sum_list (map (\<lambda>h. length (snd h)) (headings example_data)) = 1"
    by (simp add: example_data_def)
  from statistics_are_counts [OF example_scrape] lens example_scrape
  show ?thesis by simp
qed

text \<open>
  Claim C10. The link extraction truncates before it filters: the links of a returned
  document are the result of the loop over the first 100 anchors with an \<^verbatim>\<open>href\<close>, and
  their URLs are the valid ones among the resolved \<^verbatim>\<open>href\<close>s of these 100; later anchors
  play no part. There is a page with more than 100 anchors that resolve to valid URLs
  whose document has fewer than 100 links: its first anchor is a \<^verbatim>\<open>mailto:\<close> link, which
  takes one of the 100 places and is then dropped.
\<close>

theorem truncation_before_filtering:
  "(\<forall>d. scrape_website url got soup now = Inr d \<longrightarrow>
      links_loop url (take 100 (anchor_tags soup)) [] = Inr (links d)
      \<and> map link_url (links d)
          = List.map_filter (valid_target url ''href'') (take 100 (anchor_tags soup)))
   \<and> (\<exists>d. scrape_website ''https://example.com'' (Inr (ok_response crowded_markup)) crowded_page
             ''2024-01-01T00:00:00'' = Inr d
          \<and> length (links d) < 100
          \<and> 100 < length (filter (\<lambda>a. valid_target ''https://example.com'' ''href'' a \<noteq> None)
                           (anchor_tags crowded_page)))"
proof (intro conjI allI impI)
  fix d
  assume "scrape_website url got soup now = Inr d"
  then obtain r where ls: "links_loop url (take 100 (anchor_tags soup)) [] = Inr (links d)"
    by (rule scrape_website_Inr)
  then show "links_loop url (take 100 (anchor_tags soup)) [] = Inr (links d)" .
  from links_loop_urls [OF ls]
  show "map link_url (links d)
          = List.map_filter (valid_target url ''href'') (take 100 (anchor_tags soup))"
    by simp
next
  let ?u = "''https://example.com''"
  from crowded_scrape obtain d where d: "scrape_website ?u (Inr (ok_response crowded_markup)) crowded_page
         ''2024-01-01T00:00:00'' = Inr d" ..
  then obtain r where ls: "links_loop ?u (take 100 (anchor_tags crowded_page)) [] = Inr (links d)"
    by (rule scrape_website_Inr)
  have "map link_url (links d) = replicate 99 ''https://example.com/x''"
    using links_loop_urls [OF ls]
    by (simp add: crowded_anchors take_Cons' List.map_filter_simps mailto_anchor_invalid
                  map_filter_example_anchors)
  then have "length (map link_url (links d)) = 99" by (simp only: length_replicate)
  then have few: "length (links d) < 100" by simp
  have "filter (\<lambda>a. valid_target ?u ''href'' a \<noteq> None) (anchor_tags crowded_page)
          = replicate 150 (Tag ''a'' [(''href'', ''/x'')] [NavigableString ''link''])"
    by (simp add: crowded_anchors mailto_anchor_invalid filter_replicate_True example_anchor_valid)
  then have many: "100 < length (filter (\<lambda>a. valid_target ?u ''href'' a \<noteq> None)
                           (anchor_tags crowded_page))"
    by simp
  from d few many
  show "\<exists>d. scrape_website ?u (Inr (ok_response crowded_markup)) crowded_page ''2024-01-01T00:00:00'' = Inr d
          \<and> length (links d) < 100
          \<and> 100 < length (filter (\<lambda>a. valid_target ?u ''href'' a \<noteq> None)
                           (anchor_tags crowded_page))"
    by blast
qed

theorem truncation_before_filtering_witness:
  "\<exists>d. scrape_website ''https://example.com'' (Inr (ok_response crowded_markup)) crowded_page
         ''2024-01-01T00:00:00'' = Inr d
      \<and> take 100 (anchor_tags crowded_page)
          = Tag ''a'' [(''href'', ''mailto:me@example.com'')] [NavigableString ''mail'']
            # replicate 99 (Tag ''a'' [(''href'', ''/x'')] [NavigableString ''link''])
      \<and> map link_url (links d) = replicate 99 ''https://example.com/x''"
proof -
  let ?u = "''https://example.com''"
  note inst = truncation_before_filtering [of ?u "Inr (ok_response crowded_markup)" crowded_page
                "''2024-01-01T00:00:00''"]
  from inst obtain d where d: "scrape_website ?u (Inr (ok_response crowded_markup)) crowded_page
         ''2024-01-01T00:00:00'' = Inr d"
    by blast
  have t: "take 100 (anchor_tags crowded_page)
          = Tag ''a'' [(''href'', ''mailto:me@example.com'')] [NavigableString ''mail'']
            # replicate 99 (Tag ''a'' [(''href'', ''/x'')] [NavigableString ''link''])"
    by (simp add: crowded_anchors take_Cons')
  from inst d have "map link_url (links d)
          = List.map_filter (valid_target ?u ''href'') (take 100 (anchor_tags crowded_page))"
    by blast
  then have "map link_url (links d) = replicate 99 ''https://example.com/x''"
    unfolding t
    by (simp add: List.map_filter_simps mailto_anchor_invalid
                  map_filter_example_anchors)
  with d t show ?thesis by blast
qed

end
